theory Spec2Isabelle
  imports Complex_Main "HOL-Library.Sublist"
begin

section \<open>Strings as the code uses them\<close>

text \<open>
  JavaScript strings are modelled as \<open>string\<close>. Wallet addresses, Discord ids and the
  pattern \<open>default\<close> are ASCII, so \<open>toLowerCase\<close> is modelled on the ASCII letters
  \<open>A\<close> .. \<open>Z\<close> (codes 65 .. 90), every other character being left alone.
  A value used as a condition (\<open>if (s)\<close>, \<open>!s\<close>, \<open>s && ...\<close>) is truthy exactly when
  the string is not empty.
\<close>

definition lower_char :: "char \<Rightarrow> char" where
  "lower_char c =
     (let n = (of_char c :: nat) in if 65 \<le> n \<and> n \<le> 90 then char_of (n + 32) else c)"

definition toLowerCase :: "string \<Rightarrow> string" where
  "toLowerCase s = map lower_char s"

text \<open>\<open>s.includes(pat)\<close>: \<open>pat\<close> occurs in \<open>s\<close> as a contiguous run.\<close>

fun str_includes :: "string \<Rightarrow> string \<Rightarrow> bool" where
  "str_includes [] pat = (pat = [])"
| "str_includes (c # cs) pat = (prefix pat (c # cs) \<or> str_includes cs pat)"

section \<open>Social profile and trust score (neynar.ts)\<close>

text \<open>
  \<open>interface FarcasterUser\<close>. The optional chain
  \<open>verified_addresses?.eth_addresses\<close> is the field \<open>eth_addresses\<close>, the empty list
  standing for an absent one (both readers treat the two alike). Counts are JavaScript
  numbers holding integers.
\<close>

record FarcasterUser =
  u_fid :: int
  username :: string
  display_name :: string
  pfp_url :: string
  custody_address :: string
  eth_addresses :: "string list"
  sol_addresses :: "string list"
  follower_count :: int
  following_count :: int
  power_badge :: bool

text \<open>The seven additive buckets of \<open>calculateSybilScore\<close>, in the order of the source.\<close>

definition follower_points :: "FarcasterUser \<Rightarrow> int" where
  "follower_points user =
     (if follower_count user \<ge> 1000 then 30
      else if follower_count user \<ge> 500 then 25
      else if follower_count user \<ge> 100 then 20
      else if follower_count user \<ge> 50 then 15
      else if follower_count user \<ge> 10 then 10
      else if follower_count user \<ge> 1 then 5
      else 0)"

definition following_points :: "FarcasterUser \<Rightarrow> int" where
  "following_points user =
     (if following_count user \<ge> 100 then 10
      else if following_count user \<ge> 50 then 7
      else if following_count user \<ge> 10 then 5
      else 0)"

definition badge_points :: "FarcasterUser \<Rightarrow> int" where
  "badge_points user = (if power_badge user then 25 else 0)"

definition address_points :: "FarcasterUser \<Rightarrow> int" where
  "address_points user =
     (let ethAddresses = int (length (eth_addresses user)) in
      if ethAddresses \<ge> 3 then 20
      else if ethAddresses \<ge> 2 then 15
      else if ethAddresses \<ge> 1 then 10
      else 0)"

definition avatar_points :: "FarcasterUser \<Rightarrow> int" where
  "avatar_points user =
     (if pfp_url user \<noteq> [] \<and> \<not> str_includes (pfp_url user) ''default'' then 5 else 0)"

definition display_points :: "FarcasterUser \<Rightarrow> int" where
  "display_points user =
     (if display_name user \<noteq> [] \<and> display_name user \<noteq> username user then 5 else 0)"

text \<open>
  \<open>ratio = follower_count / following_count\<close>, evaluated only when
  \<open>following_count > 0\<close>; the quotient is taken in the rationals.
\<close>

definition ratio_points :: "FarcasterUser \<Rightarrow> int" where
  "ratio_points user =
     (if following_count user > 0 then
        (let ratio = (of_int (follower_count user) :: rat) / of_int (following_count user)
         in if ratio \<ge> 1 / 2 \<and> ratio \<le> 10 then 5 else 0)
      else 0)"

text \<open>
  \<open>calculateSybilScore\<close>, applied to the result of \<open>getFarcasterUser\<close>
  (\<open>None\<close> for \<open>null\<close>).
\<close>

definition calculateSybilScore :: "FarcasterUser option \<Rightarrow> int" where
  "calculateSybilScore r =
     (case r of
        None \<Rightarrow> 0
      | Some user \<Rightarrow>
          min (follower_points user + following_points user + badge_points user
               + address_points user + avatar_points user + display_points user
               + ratio_points user) 100)"

section \<open>Identity Resolver (neynar.ts, index.ts)\<close>

text \<open>
  Both \<open>new Set(iterable)\<close> and the \<open>includes\<close>/\<open>push\<close> loop of
  \<open>getFarcasterWallets\<close> add an element at the end unless it is already there, so the
  order is that of the first occurrences.
\<close>

definition add_unique :: "'a list \<Rightarrow> 'a \<Rightarrow> 'a list" where
  "add_unique acc x = (if x \<in> set acc then acc else acc @ [x])"

definition new_Set :: "'a list \<Rightarrow> 'a list" where
  "new_Set xs = foldl add_unique [] xs"

text \<open>
  The answer of the bulk user lookup is \<open>None\<close> when the API key is missing, the
  response is not ok, \<open>users\<close> is missing or the request throws, and the list of users
  otherwise.
\<close>

definition getFarcasterWallets :: "FarcasterUser list option \<Rightarrow> string list" where
  "getFarcasterWallets response =
     (case response of
        None \<Rightarrow> []
      | Some [] \<Rightarrow> []
      | Some (user # _) \<Rightarrow>
          foldl (\<lambda>wallets addr. add_unique wallets (toLowerCase addr))
            (if custody_address user \<noteq> [] then [toLowerCase (custody_address user)] else [])
            (eth_addresses user))"

definition getFarcasterUser :: "FarcasterUser list option \<Rightarrow> FarcasterUser option" where
  "getFarcasterUser response =
     (case response of None \<Rightarrow> None | Some [] \<Rightarrow> None | Some (user # _) \<Rightarrow> Some user)"

text \<open>\<open>[...new Set([wallet.toLowerCase(), ...farcasterWallets])]\<close>\<close>

definition allWallets :: "string \<Rightarrow> string list \<Rightarrow> string list" where
  "allWallets wallet farcasterWallets = new_Set (toLowerCase wallet # farcasterWallets)"

section \<open>Ownership Aggregator (blockchain.ts, index.ts)\<close>

text \<open>
  \<open>balanceOf\<close> is the contract read: \<open>None\<close> when it throws, the \<open>uint256\<close> count
  otherwise. \<open>getProtardioBalance\<close> catches the error and returns 0. The count is taken
  as an exact integer (token counts are far below \<open>2 ^ 53\<close>).
\<close>

definition getProtardioBalance :: "(string \<Rightarrow> nat option) \<Rightarrow> string \<Rightarrow> int" where
  "getProtardioBalance balanceOf wallet =
     (case balanceOf wallet of Some balance \<Rightarrow> int balance | None \<Rightarrow> 0)"

text \<open>\<open>holdingWallet: string | null\<close>; \<open>!holdingWallet\<close> holds for \<open>null\<close> and for \<open>""\<close>.\<close>

definition truthy :: "string option \<Rightarrow> bool" where
  "truthy h = (case h of None \<Rightarrow> False | Some s \<Rightarrow> s \<noteq> [])"

text \<open>The wallet loop of the OAuth callback, on the pair \<open>(totalBalance, holdingWallet)\<close>.\<close>

fun check_wallets ::
  "(string \<Rightarrow> nat option) \<Rightarrow> string list \<Rightarrow> int \<times> string option \<Rightarrow> int \<times> string option" where
  "check_wallets balanceOf [] (totalBalance, holdingWallet) = (totalBalance, holdingWallet)"
| "check_wallets balanceOf (wallet # rest) (totalBalance, holdingWallet) =
     (let balance = getProtardioBalance balanceOf wallet in
      if balance > 0 then
        check_wallets balanceOf rest
          (totalBalance + balance, if \<not> truthy holdingWallet then Some wallet else holdingWallet)
      else check_wallets balanceOf rest (totalBalance, holdingWallet))"

text \<open>The loop of the re-verification timer: \<open>totalBalance += await getProtardioBalance(wallet)\<close>.\<close>

fun sum_balances :: "(string \<Rightarrow> nat option) \<Rightarrow> string list \<Rightarrow> int \<Rightarrow> int" where
  "sum_balances balanceOf [] totalBalance = totalBalance"
| "sum_balances balanceOf (wallet # rest) totalBalance =
     sum_balances balanceOf rest (totalBalance + getProtardioBalance balanceOf wallet)"

section \<open>Persistence (supabase-database.ts, supabase-schema.sql)\<close>

text \<open>
  The two tables are lists of rows. Timestamps are milliseconds since the epoch. The
  serial \<open>id\<close> column is never read by the code and is left out. The store answers every
  request: a request that fails is logged by the code and is outside this model.
\<close>

record DiscordVerification =
  v_fid :: int
  v_wallet :: string
  discord_id :: string
  discord_username :: string
  nft_balance :: int
  verified_at :: int
  last_checked :: int

record DiscordPendingVerification =
  session_id :: string
  p_fid :: int
  p_wallet :: string
  created_at :: int

record database =
  verifications :: "DiscordVerification list"
  pendings :: "DiscordPendingVerification list"

text \<open>\<open>.single()\<close>: the row when exactly one row matches, an error (\<open>null\<close>) otherwise.\<close>

fun single :: "'a list \<Rightarrow> 'a option" where
  "single [r] = Some r"
| "single _ = None"

text \<open>
  \<open>storePending\<close> inserts a row, with the clock read as \<open>now\<close>; the table's
  \<open>UNIQUE\<close> constraint on \<open>session_id\<close> refuses a second row with the same id (the
  error is logged and the table is unchanged).
\<close>

definition storePending :: "int \<Rightarrow> string \<Rightarrow> int \<Rightarrow> string \<Rightarrow> database \<Rightarrow> database" where
  "storePending now sessionId fid wallet db =
     (if sessionId \<in> session_id ` set (pendings db) then db
      else db\<lparr>pendings := pendings db @
             [\<lparr>session_id = sessionId, p_fid = fid, p_wallet = toLowerCase wallet,
               created_at = now\<rparr>]\<rparr>)"

definition getPending :: "database \<Rightarrow> string \<Rightarrow> DiscordPendingVerification option" where
  "getPending db sessionId = single (filter (\<lambda>p. session_id p = sessionId) (pendings db))"

definition deletePending :: "string \<Rightarrow> database \<Rightarrow> database" where
  "deletePending sessionId db =
     db\<lparr>pendings := filter (\<lambda>p. session_id p \<noteq> sessionId) (pendings db)\<rparr>"

text \<open>
  \<open>upsert(row, { onConflict: 'discord_id' })\<close>: a row with the same \<open>discord_id\<close> takes
  every column of the new row, and the new row is inserted when there is none.
\<close>

definition upsert :: "DiscordVerification \<Rightarrow> DiscordVerification list \<Rightarrow> DiscordVerification list" where
  "upsert row rows =
     (if discord_id row \<in> discord_id ` set rows
      then map (\<lambda>r. if discord_id r = discord_id row then row else r) rows
      else rows @ [row])"

text \<open>
  \<open>storeVerification\<close> reads the clock for \<open>verified_at\<close> and for \<open>last_checked\<close>; the
  two readings are taken as one instant \<open>now\<close>.
\<close>

definition storeVerification ::
  "int \<Rightarrow> int \<Rightarrow> string \<Rightarrow> string \<Rightarrow> string \<Rightarrow> int \<Rightarrow> database \<Rightarrow> database" where
  "storeVerification now fid wallet discordId discordUsername nftBalance db =
     db\<lparr>verifications :=
          upsert \<lparr>v_fid = fid, v_wallet = toLowerCase wallet, discord_id = discordId,
                  discord_username = discordUsername, nft_balance = nftBalance,
                  verified_at = now, last_checked = now\<rparr>
            (verifications db)\<rparr>"

definition updateNftBalance :: "int \<Rightarrow> string \<Rightarrow> int \<Rightarrow> database \<Rightarrow> database" where
  "updateNftBalance now discordId nftBalance db =
     db\<lparr>verifications :=
          map (\<lambda>r. if discord_id r = discordId
                    then r\<lparr>nft_balance := nftBalance, last_checked := now\<rparr> else r)
            (verifications db)\<rparr>"

definition deleteVerification :: "string \<Rightarrow> database \<Rightarrow> database" where
  "deleteVerification discordId db =
     db\<lparr>verifications := filter (\<lambda>r. discord_id r \<noteq> discordId) (verifications db)\<rparr>"

definition getVerificationByWallet :: "database \<Rightarrow> string \<Rightarrow> DiscordVerification option" where
  "getVerificationByWallet db wallet =
     single (filter (\<lambda>r. v_wallet r = toLowerCase wallet) (verifications db))"

definition getVerificationByFid :: "database \<Rightarrow> int \<Rightarrow> DiscordVerification option" where
  "getVerificationByFid db fid = single (filter (\<lambda>r. v_fid r = fid) (verifications db))"

text \<open>
  Rows not checked in the last 24 hours, oldest first, at most 100 (rows with equal
  timestamps keep their table order).
\<close>

definition getStaleVerifications :: "int \<Rightarrow> database \<Rightarrow> DiscordVerification list" where
  "getStaleVerifications now db =
     take 100 (sort_key last_checked
       (filter (\<lambda>r. last_checked r < now - 24 * 60 * 60 * 1000) (verifications db)))"

section \<open>Verification flow: the OAuth callback (index.ts)\<close>

text \<open>
  The external collaborators of one request, as the answers they give:
  \<^item> \<open>discord_oauth code\<close>: the token exchange followed by the user lookup, \<open>None\<close> when
    either response is not ok or the request throws (the handler's \<open>catch\<close>);
  \<^item> \<open>neynar_bulk fid\<close>: the bulk user lookup of the social graph;
  \<^item> \<open>balanceOf wallet\<close>: the contract read;
  \<^item> \<open>role_add discordId\<close>: the result of \<open>assignHolderRole\<close>.
  The guild auto-join request writes nothing to the store and its failure is ignored by
  the handler; it is left out.
\<close>

record discord_user =
  du_id :: string
  du_username :: string

record collaborators =
  discord_oauth :: "string \<Rightarrow> discord_user option"
  neynar_bulk :: "int \<Rightarrow> FarcasterUser list option"
  balanceOf :: "string \<Rightarrow> nat option"
  role_add :: "string \<Rightarrow> bool"

text \<open>The response of the handler: which page it renders, with the data that goes into it.\<close>

datatype page =
    MissingCodeOrState
  | InvalidSession
  | FidAlreadyLinked int string
  | WalletAlreadyLinked string
  | Success string int int
  | RoleAssignFailed
  | NoNFT "string list"
  | VerificationError

text \<open>\<open>existing && existing.discord_id !== discordUser.id\<close>\<close>

definition linked_elsewhere :: "DiscordVerification option \<Rightarrow> string \<Rightarrow> bool" where
  "linked_elsewhere existing discordId =
     (case existing of None \<Rightarrow> False | Some e \<Rightarrow> discord_id e \<noteq> discordId)"

text \<open>
  The branch \<open>totalBalance > 0 && holdingWallet\<close> of the callback: the two conflict
  checks, the trust score, the role grant and the write. The clock is read as \<open>now\<close>.
\<close>

definition verify_holder ::
  "collaborators \<Rightarrow> int \<Rightarrow> string \<Rightarrow> DiscordPendingVerification \<Rightarrow> discord_user \<Rightarrow> int \<Rightarrow> string
     \<Rightarrow> database \<Rightarrow> database \<times> page" where
  "verify_holder env now sessionId pending discordUser totalBalance holdingWallet db =
     (let existingFidVerification =
            (if p_fid pending > 0 then getVerificationByFid db (p_fid pending) else None);
          existingVerification = getVerificationByWallet db holdingWallet
      in
      if linked_elsewhere existingFidVerification (du_id discordUser) then
        (deletePending sessionId db,
         FidAlreadyLinked (p_fid pending)
           (case existingFidVerification of Some e \<Rightarrow> discord_username e | None \<Rightarrow> []))
      else if linked_elsewhere existingVerification (du_id discordUser) then
        (deletePending sessionId db,
         WalletAlreadyLinked
           (case existingVerification of Some e \<Rightarrow> discord_username e | None \<Rightarrow> []))
      else
        (let sybilScore =
               (if p_fid pending > 0
                then calculateSybilScore (getFarcasterUser (neynar_bulk env (p_fid pending)))
                else 0);
             roleAssigned = role_add env (du_id discordUser)
         in
         if roleAssigned then
           (deletePending sessionId
              (storeVerification now (p_fid pending) holdingWallet (du_id discordUser)
                 (du_username discordUser) totalBalance db),
            Success (du_username discordUser) totalBalance sybilScore)
         else (db, RoleAssignFailed)))"

text \<open>
  \<open>app.get('/auth/discord/callback', ...)\<close>. A missing query parameter is the empty
  string.
\<close>

definition callback ::
  "collaborators \<Rightarrow> int \<Rightarrow> string \<Rightarrow> string \<Rightarrow> database \<Rightarrow> database \<times> page" where
  "callback env now code state db =
     (if code = [] \<or> state = [] then (db, MissingCodeOrState)
      else
        (let sessionId = state in
         case getPending db sessionId of
           None \<Rightarrow> (db, InvalidSession)
         | Some pending \<Rightarrow>
             (case discord_oauth env code of
                None \<Rightarrow> (db, VerificationError)
              | Some discordUser \<Rightarrow>
                  (let farcasterWallets =
                         (if p_fid pending > 0
                          then getFarcasterWallets (neynar_bulk env (p_fid pending)) else []);
                       wallets = allWallets (p_wallet pending) farcasterWallets;
                       (totalBalance, holdingWallet) =
                         check_wallets (balanceOf env) wallets (0, None)
                   in
                   if totalBalance > 0 \<and> truthy holdingWallet then
                     verify_holder env now sessionId pending discordUser totalBalance
                       (case holdingWallet of Some w \<Rightarrow> w | None \<Rightarrow> []) db
                   else (deletePending sessionId db, NoNFT wallets)))))"

text \<open>
  A run of the service: callback requests handled one after the other, each with its own
  collaborator answers, clock reading, \<open>code\<close> and \<open>state\<close>.
\<close>

fun callbacks ::
  "(collaborators \<times> int \<times> string \<times> string) list \<Rightarrow> database \<Rightarrow> database" where
  "callbacks [] db = db"
| "callbacks ((env, now, code, state) # reqs) db =
     callbacks reqs (fst (callback env now code state db))"

section \<open>Reconciliation loop (index.ts)\<close>

text \<open>
  One iteration of the re-verification timer, on the store and the list of accounts for
  which \<open>removeHolderRole\<close> was called (its result is not read by the loop).
\<close>

definition reverify ::
  "collaborators \<Rightarrow> int \<Rightarrow> DiscordVerification \<Rightarrow> database \<times> string list
     \<Rightarrow> database \<times> string list" where
  "reverify env now verification s =
     (let farcasterWallets = getFarcasterWallets (neynar_bulk env (v_fid verification));
          wallets = allWallets (v_wallet verification) farcasterWallets;
          totalBalance = sum_balances (balanceOf env) wallets 0
      in
      if totalBalance = 0 then
        (deleteVerification (discord_id verification) (fst s),
         snd s @ [discord_id verification])
      else (updateNftBalance now (discord_id verification) totalBalance (fst s), snd s))"

text \<open>
  The timer's run: the stale rows are fetched once, at \<open>now\<close>, and processed in order;
  \<open>clock i\<close> is the reading of the clock in iteration \<open>i\<close>.
\<close>

fun reverify_each ::
  "collaborators \<Rightarrow> (nat \<Rightarrow> int) \<Rightarrow> nat \<Rightarrow> DiscordVerification list \<Rightarrow> database \<times> string list
     \<Rightarrow> database \<times> string list" where
  "reverify_each env clock i [] s = s"
| "reverify_each env clock i (verification # rest) s =
     reverify_each env clock (Suc i) rest (reverify env (clock i) verification s)"

definition reverification ::
  "collaborators \<Rightarrow> int \<Rightarrow> (nat \<Rightarrow> int) \<Rightarrow> database \<Rightarrow> database \<times> string list" where
  "reverification env now clock db =
     reverify_each env clock 0 (getStaleVerifications now db) (db, [])"

section \<open>Bindings without duplicates\<close>

text \<open>
  No two rows of the table have the same Discord id, no two have the same wallet, and no
  two have the same positive social id.
\<close>

definition unique_bindings :: "DiscordVerification list \<Rightarrow> bool" where
  "unique_bindings rows \<longleftrightarrow>
     distinct (map discord_id rows) \<and> distinct (map v_wallet rows)
     \<and> distinct (map v_fid (filter (\<lambda>r. 0 < v_fid r) rows))"

section \<open>Scenarios\<close>

text \<open>
  Collaborators for the scenarios: the OAuth exchange answers with the given Discord
  account, the social graph knows no user, wallet \<open>0xaaa\<close> holds 2 tokens and wallet
  \<open>0xbbb\<close> holds 3, every other contract read throws, and the role grant answers
  \<open>grant\<close>.
\<close>

definition scenario_env :: "string \<Rightarrow> string \<Rightarrow> bool \<Rightarrow> collaborators" where
  "scenario_env discordId name grant =
     \<lparr>discord_oauth = (\<lambda>code. Some \<lparr>du_id = discordId, du_username = name\<rparr>),
      neynar_bulk = (\<lambda>fid. None),
      balanceOf = (\<lambda>wallet. if wallet = ''0xaaa'' then Some 2
                             else if wallet = ''0xbbb'' then Some 3 else None),
      role_add = (\<lambda>discordId. grant)\<rparr>"

text \<open>An empty store, and the store after one flow was started with the given session.\<close>

definition empty_db :: database where
  "empty_db = \<lparr>verifications = [], pendings = []\<rparr>"

definition started_db :: "string \<Rightarrow> int \<Rightarrow> string \<Rightarrow> database" where
  "started_db sessionId fid wallet = storePending 0 sessionId fid wallet empty_db"

text \<open>
  A store with two Bindings made from wallets alone: account \<open>D1\<close> with wallet
  \<open>0xccc\<close>, which holds nothing any more, and account \<open>D2\<close> with wallet \<open>0xaaa\<close>.
\<close>

definition holders_db :: database where
  "holders_db =
     \<lparr>verifications =
        [\<lparr>v_fid = 0, v_wallet = ''0xccc'', discord_id = ''D1'', discord_username = ''alice'',
          nft_balance = 1, verified_at = 5, last_checked = 5\<rparr>,
         \<lparr>v_fid = 0, v_wallet = ''0xaaa'', discord_id = ''D2'', discord_username = ''bob'',
          nft_balance = 1, verified_at = 6, last_checked = 6\<rparr>],
      pendings = []\<rparr>"

section \<open>Trust score: properties\<close>

lemma str_includes_iff: "str_includes s pat \<longleftrightarrow> sublist pat s"
  by (induction s) (auto simp: sublist_Cons_right)

lemmas bucket_defs = follower_points_def following_points_def badge_points_def
  address_points_def avatar_points_def display_points_def

lemma bucket_bounds:
  "0 \<le> follower_points u" "follower_points u \<le> 30"
  "0 \<le> following_points u" "following_points u \<le> 10"
  "0 \<le> badge_points u" "badge_points u \<le> 25"
  "0 \<le> address_points u" "address_points u \<le> 20"
  "0 \<le> avatar_points u" "avatar_points u \<le> 5"
  "0 \<le> display_points u" "display_points u \<le> 5"
  "0 \<le> ratio_points u" "ratio_points u \<le> 5"
  by (simp_all add: bucket_defs ratio_points_def Let_def)

text \<open>The buckets add up to at most 100, so the final \<open>Math.min\<close> never cuts.\<close>

lemma score_sum:
  "calculateSybilScore (Some u) =
     follower_points u + following_points u + badge_points u + address_points u
     + avatar_points u + display_points u + ratio_points u"
  using bucket_bounds [of u] by (simp add: calculateSybilScore_def)

lemma score_range: "0 \<le> calculateSybilScore r \<and> calculateSybilScore r \<le> 100"
proof (cases r)
  case None
  then show ?thesis by (simp add: calculateSybilScore_def)
next
  case (Some u)
  then show ?thesis using bucket_bounds [of u] by (simp add: calculateSybilScore_def)
qed

text \<open>The ratio test without division: \<open>0.5 \<le> a / b \<le> 10\<close> for \<open>b > 0\<close>.\<close>

lemma ratio_points_int:
  "ratio_points u =
     (if following_count u > 0 \<and> following_count u \<le> 2 * follower_count u
         \<and> follower_count u \<le> 10 * following_count u then 5 else 0)"
proof (cases "following_count u > 0")
  case True
  then have g: "(0::rat) < of_int (following_count u)" by simp
  have a: "(1 / 2 \<le> (of_int (follower_count u) :: rat) / of_int (following_count u))
        \<longleftrightarrow> following_count u \<le> 2 * follower_count u"
  proof -
    have "(1 / 2 \<le> (of_int (follower_count u) :: rat) / of_int (following_count u))
        \<longleftrightarrow> (of_int (following_count u) :: rat) \<le> of_int (2 * follower_count u)"
      using g by (simp add: pos_le_divide_eq field_simps)
    then show ?thesis by (simp only: of_int_le_iff)
  qed
  have b: "((of_int (follower_count u) :: rat) / of_int (following_count u) \<le> 10)
        \<longleftrightarrow> follower_count u \<le> 10 * following_count u"
  proof -
    have "((of_int (follower_count u) :: rat) / of_int (following_count u) \<le> 10)
        \<longleftrightarrow> (of_int (follower_count u) :: rat) \<le> of_int (10 * following_count u)"
      using g by (simp add: pos_divide_le_eq field_simps)
    then show ?thesis by (simp only: of_int_le_iff)
  qed
  show ?thesis using True a b by (simp add: ratio_points_def Let_def)
next
  case False
  then show ?thesis by (simp add: ratio_points_def)
qed

text \<open>
  Claim C10. The score of a profile is the score of the same profile without an avatar
  URL, plus 5 exactly when the avatar URL is not empty and does not contain
  \<open>default\<close>. A profile whose avatar URL is set but contains \<open>default\<close> gets nothing
  for it.
\<close>

theorem avatar_points_rule:
  "calculateSybilScore (Some user) =
     calculateSybilScore (Some (user\<lparr>pfp_url := []\<rparr>))
     + (if pfp_url user \<noteq> [] \<and> \<not> str_includes (pfp_url user) ''default'' then 5 else 0)"
  by (simp add: score_sum bucket_defs ratio_points_def)

text \<open>
  Claim C6, as the code has it. The score never goes down when the number of verified
  addresses grows, when the badge is set, when the avatar test starts to hold or when the
  display-name test starts to hold. When the follower count or the following count
  grows, the score never goes down as long as the ratio bonus is not lost, and it goes
  down by at most the 5 points of that bonus otherwise.
\<close>

theorem trust_score_monotone_amended:
  "(length (eth_addresses u) \<le> length a \<longrightarrow>
      calculateSybilScore (Some u) \<le> calculateSybilScore (Some (u\<lparr>eth_addresses := a\<rparr>)))
 \<and> ((power_badge u \<longrightarrow> b) \<longrightarrow>
      calculateSybilScore (Some u) \<le> calculateSybilScore (Some (u\<lparr>power_badge := b\<rparr>)))
 \<and> ((pfp_url u \<noteq> [] \<and> \<not> str_includes (pfp_url u) ''default''
        \<longrightarrow> p \<noteq> [] \<and> \<not> str_includes p ''default'') \<longrightarrow>
      calculateSybilScore (Some u) \<le> calculateSybilScore (Some (u\<lparr>pfp_url := p\<rparr>)))
 \<and> ((display_name u \<noteq> [] \<and> display_name u \<noteq> username u
        \<longrightarrow> d \<noteq> [] \<and> d \<noteq> username u) \<longrightarrow>
      calculateSybilScore (Some u) \<le> calculateSybilScore (Some (u\<lparr>display_name := d\<rparr>)))
 \<and> (follower_count u \<le> n \<longrightarrow>
      calculateSybilScore (Some u) \<le> calculateSybilScore (Some (u\<lparr>follower_count := n\<rparr>)) + 5
      \<and> (ratio_points u \<le> ratio_points (u\<lparr>follower_count := n\<rparr>) \<longrightarrow>
           calculateSybilScore (Some u) \<le> calculateSybilScore (Some (u\<lparr>follower_count := n\<rparr>))))
 \<and> (following_count u \<le> m \<longrightarrow>
      calculateSybilScore (Some u) \<le> calculateSybilScore (Some (u\<lparr>following_count := m\<rparr>)) + 5
      \<and> (ratio_points u \<le> ratio_points (u\<lparr>following_count := m\<rparr>) \<longrightarrow>
           calculateSybilScore (Some u) \<le> calculateSybilScore (Some (u\<lparr>following_count := m\<rparr>))))"
proof (intro conjI impI)
  assume "length (eth_addresses u) \<le> length a"
  then show "calculateSybilScore (Some u) \<le> calculateSybilScore (Some (u\<lparr>eth_addresses := a\<rparr>))"
    by (simp add: score_sum bucket_defs ratio_points_def Let_def)
next
  assume "power_badge u \<longrightarrow> b"
  then show "calculateSybilScore (Some u) \<le> calculateSybilScore (Some (u\<lparr>power_badge := b\<rparr>))"
    by (simp add: score_sum bucket_defs ratio_points_def)
next
  assume "pfp_url u \<noteq> [] \<and> \<not> str_includes (pfp_url u) ''default''
        \<longrightarrow> p \<noteq> [] \<and> \<not> str_includes p ''default''"
  then show "calculateSybilScore (Some u) \<le> calculateSybilScore (Some (u\<lparr>pfp_url := p\<rparr>))"
    by (simp add: score_sum bucket_defs ratio_points_def)
next
  assume "display_name u \<noteq> [] \<and> display_name u \<noteq> username u
        \<longrightarrow> d \<noteq> [] \<and> d \<noteq> username u"
  then show "calculateSybilScore (Some u) \<le> calculateSybilScore (Some (u\<lparr>display_name := d\<rparr>))"
    by (simp add: score_sum bucket_defs ratio_points_def)
next
  assume h: "follower_count u \<le> n"
  have r: "ratio_points u \<le> ratio_points (u\<lparr>follower_count := n\<rparr>) + 5"
    using bucket_bounds(13,14) [of u] bucket_bounds(13,14) [of "u\<lparr>follower_count := n\<rparr>"]
    by linarith
  have f: "follower_points u \<le> follower_points (u\<lparr>follower_count := n\<rparr>)"
    using h by (simp add: follower_points_def)
  show "calculateSybilScore (Some u) \<le> calculateSybilScore (Some (u\<lparr>follower_count := n\<rparr>)) + 5"
    using r f by (simp add: score_sum following_points_def badge_points_def
      address_points_def avatar_points_def display_points_def)
  assume "ratio_points u \<le> ratio_points (u\<lparr>follower_count := n\<rparr>)"
  then show "calculateSybilScore (Some u) \<le> calculateSybilScore (Some (u\<lparr>follower_count := n\<rparr>))"
    using f by (simp add: score_sum following_points_def badge_points_def
      address_points_def avatar_points_def display_points_def)
next
  assume h: "following_count u \<le> m"
  have r: "ratio_points u \<le> ratio_points (u\<lparr>following_count := m\<rparr>) + 5"
    using bucket_bounds(13,14) [of u] bucket_bounds(13,14) [of "u\<lparr>following_count := m\<rparr>"]
    by linarith
  have f: "following_points u \<le> following_points (u\<lparr>following_count := m\<rparr>)"
    using h by (simp add: following_points_def)
  show "calculateSybilScore (Some u) \<le> calculateSybilScore (Some (u\<lparr>following_count := m\<rparr>)) + 5"
    using r f by (simp add: score_sum follower_points_def badge_points_def
      address_points_def avatar_points_def display_points_def)
  assume "ratio_points u \<le> ratio_points (u\<lparr>following_count := m\<rparr>)"
  then show "calculateSybilScore (Some u) \<le> calculateSybilScore (Some (u\<lparr>following_count := m\<rparr>))"
    using f by (simp add: score_sum follower_points_def badge_points_def
      address_points_def avatar_points_def display_points_def)
qed

text \<open>
  At 100 followers and 10 followed accounts the ratio is 10 and the score is 30; one
  more follower takes the ratio above 10 and the score to 25. At 1 follower, going from
  2 to 3 followed accounts takes the ratio below 0.5 and the score from 10 to 5.
\<close>

theorem trust_score_followers_counterexample:
  "calculateSybilScore (Some \<lparr>u_fid = 1, username = ''a'', display_name = ''a'', pfp_url = [],
      custody_address = [], eth_addresses = [], sol_addresses = [],
      follower_count = 101, following_count = 10, power_badge = False\<rparr>)
   < calculateSybilScore (Some \<lparr>u_fid = 1, username = ''a'', display_name = ''a'', pfp_url = [],
      custody_address = [], eth_addresses = [], sol_addresses = [],
      follower_count = 100, following_count = 10, power_badge = False\<rparr>)
 \<and> calculateSybilScore (Some \<lparr>u_fid = 1, username = ''a'', display_name = ''a'', pfp_url = [],
      custody_address = [], eth_addresses = [], sol_addresses = [],
      follower_count = 1, following_count = 3, power_badge = False\<rparr>)
   < calculateSybilScore (Some \<lparr>u_fid = 1, username = ''a'', display_name = ''a'', pfp_url = [],
      custody_address = [], eth_addresses = [], sol_addresses = [],
      follower_count = 1, following_count = 2, power_badge = False\<rparr>)"
  by (simp add: calculateSybilScore_def bucket_defs ratio_points_def)

theorem trust_score_monotone_amended_witness:
  "calculateSybilScore (Some \<lparr>u_fid = 1, username = ''a'', display_name = ''a'', pfp_url = [],
      custody_address = [], eth_addresses = [], sol_addresses = [],
      follower_count = 100, following_count = 10, power_badge = False\<rparr>)
   \<le> calculateSybilScore (Some \<lparr>u_fid = 1, username = ''a'', display_name = ''a'', pfp_url = [],
      custody_address = [], eth_addresses = [], sol_addresses = [],
      follower_count = 101, following_count = 10, power_badge = False\<rparr>) + 5
 \<and> calculateSybilScore (Some \<lparr>u_fid = 1, username = ''a'', display_name = ''a'', pfp_url = [],
      custody_address = [], eth_addresses = [], sol_addresses = [],
      follower_count = 100, following_count = 10, power_badge = False\<rparr>)
   \<le> calculateSybilScore (Some \<lparr>u_fid = 1, username = ''a'', display_name = ''a'', pfp_url = [],
      custody_address = [], eth_addresses = [''0xa''], sol_addresses = [],
      follower_count = 100, following_count = 10, power_badge = False\<rparr>)"
  using trust_score_monotone_amended [of
     "\<lparr>u_fid = 1, username = ''a'', display_name = ''a'', pfp_url = [],
      custody_address = [], eth_addresses = [], sol_addresses = [],
      follower_count = 100, following_count = 10, power_badge = False\<rparr>"
     "[''0xa'']" True "[]" "''a''" 101 10]
  by simp

section \<open>Ownership Aggregator: properties\<close>

lemma getProtardioBalance_nonneg: "0 \<le> getProtardioBalance bal w"
  by (simp add: getProtardioBalance_def split: option.split)

lemma check_wallets_total:
  "fst (check_wallets bal ws (t, h)) = t + sum_list (map (getProtardioBalance bal) ws)"
proof (induction ws arbitrary: t h)
  case Nil
  show ?case by simp
next
  case (Cons w ws)
  show ?case
  proof (cases "0 < getProtardioBalance bal w")
    case True
    then show ?thesis by (simp add: Cons.IH Let_def)
  next
    case False
    then have "getProtardioBalance bal w = 0"
      using getProtardioBalance_nonneg [of bal w] by simp
    then show ?thesis by (simp add: Cons.IH)
  qed
qed

lemma sum_balances_total:
  "sum_balances bal ws t = t + sum_list (map (getProtardioBalance bal) ws)"
  by (induction ws arbitrary: t) simp_all

text \<open>
  Claim C1. For every wallet list, the total that the callback's loop computes is the
  sum over the whole list of the contract reads, a read that throws counting 0. The loop
  is a total function of the list: no read stops it.
\<close>

theorem aggregate_balance_is_sum:
  "fst (check_wallets bal ws (0, None))
     = (\<Sum>w\<leftarrow>ws. case bal w of None \<Rightarrow> 0 | Some n \<Rightarrow> int n)"
proof -
  have "getProtardioBalance bal = (\<lambda>w. case bal w of None \<Rightarrow> 0 | Some n \<Rightarrow> int n)"
    by (rule ext) (simp add: getProtardioBalance_def split: option.split)
  then show ?thesis by (simp add: check_wallets_total)
qed

section \<open>Identity Resolver: properties\<close>

lemma lower_char_idem: "lower_char (lower_char c) = lower_char c"
  by (simp add: lower_char_def Let_def)

lemma toLowerCase_idem: "toLowerCase (toLowerCase s) = toLowerCase s"
  by (simp add: toLowerCase_def lower_char_idem)

lemma foldl_add_unique_set:
  "set (foldl (\<lambda>acc x. add_unique acc (f x)) acc xs) = set acc \<union> f ` set xs"
  by (induction xs arbitrary: acc) (auto simp: add_unique_def)

lemma foldl_add_unique_distinct:
  "distinct acc \<Longrightarrow> distinct (foldl (\<lambda>acc x. add_unique acc (f x)) acc xs)"
  by (induction xs arbitrary: acc) (auto simp: add_unique_def)

lemma foldl_add_unique_filter:
  "distinct xs \<Longrightarrow> foldl add_unique acc xs = acc @ filter (\<lambda>x. x \<notin> set acc) xs"
proof (induction xs arbitrary: acc)
  case Nil
  show ?case by simp
next
  case (Cons y ys)
  from Cons.prems have y: "y \<notin> set ys" and ys: "distinct ys" by auto
  show ?case
  proof (cases "y \<in> set acc")
    case True
    then show ?thesis using Cons.IH [OF ys, of acc] by (simp add: add_unique_def)
  next
    case False
    have "filter (\<lambda>x. x \<notin> set (acc @ [y])) ys = filter (\<lambda>x. x \<notin> set acc) ys"
      using y by (intro filter_cong) auto
    then show ?thesis using False Cons.IH [OF ys, of "acc @ [y]"]
      by (simp add: add_unique_def)
  qed
qed

lemma getFarcasterWallets_distinct: "distinct (getFarcasterWallets r)"
  by (auto simp: getFarcasterWallets_def foldl_add_unique_distinct split: option.split list.split)

lemma getFarcasterWallets_lower:
  "x \<in> set (getFarcasterWallets r) \<Longrightarrow> toLowerCase x = x"
  by (auto simp: getFarcasterWallets_def foldl_add_unique_set toLowerCase_idem
      split: option.splits list.splits if_splits)

lemma allWallets_eq:
  "distinct fw \<Longrightarrow>
   allWallets w fw = toLowerCase w # filter (\<lambda>x. x \<noteq> toLowerCase w) fw"
  by (simp add: allWallets_def new_Set_def add_unique_def foldl_add_unique_filter)

text \<open>
  Claim C7. For every submitted wallet, social id and answer of the social-graph lookup,
  the candidate list is the lowercased submitted wallet followed by the wallets that
  \<open>getFarcasterWallets\<close> returned, in its order and without the submitted one; it has no
  duplicates, every element is in lowercase form, it contains the submitted wallet and
  it is not empty.
\<close>

theorem resolver_output:
  "allWallets w (if 0 < (fid::int) then getFarcasterWallets r else [])
     = toLowerCase w # filter (\<lambda>x. x \<noteq> toLowerCase w) (if 0 < (fid::int) then getFarcasterWallets r else [])
   \<and> distinct (allWallets w (if 0 < (fid::int) then getFarcasterWallets r else []))
   \<and> (\<forall>x \<in> set (allWallets w (if 0 < (fid::int) then getFarcasterWallets r else [])). toLowerCase x = x)
   \<and> toLowerCase w \<in> set (allWallets w (if 0 < (fid::int) then getFarcasterWallets r else []))
   \<and> allWallets w (if 0 < (fid::int) then getFarcasterWallets r else []) \<noteq> []"
proof -
  let ?fw = "if 0 < fid then getFarcasterWallets r else []"
  let ?lw = "toLowerCase w"
  have d: "distinct ?fw" by (simp add: getFarcasterWallets_distinct)
  have l: "\<forall>x\<in>set ?fw. toLowerCase x = x"
    using getFarcasterWallets_lower [of _ r] by (cases "0 < fid") simp_all
  have e: "allWallets w ?fw = ?lw # filter (\<lambda>x. x \<noteq> ?lw) ?fw"
    using d by (rule allWallets_eq)
  have d': "distinct (?lw # filter (\<lambda>x. x \<noteq> ?lw) ?fw)"
    using d by simp
  have l': "\<forall>x\<in>set (?lw # filter (\<lambda>x. x \<noteq> ?lw) ?fw). toLowerCase x = x"
    using l toLowerCase_idem [of w] by simp
  have m: "?lw \<in> set (?lw # filter (\<lambda>x. x \<noteq> ?lw) ?fw)" by simp
  have n: "?lw # filter (\<lambda>x. x \<noteq> ?lw) ?fw \<noteq> []" by simp
  show ?thesis
    unfolding e using d' l' m n by (intro conjI refl)
qed

theorem resolver_output_witness:
  "allWallets ''0xAB'' (getFarcasterWallets (Some [\<lparr>u_fid = 7, username = ''a'', display_name = ''a'',
      pfp_url = [], custody_address = ''0xCD'', eth_addresses = [''0xab'', ''0xEF'', ''0xcd''],
      sol_addresses = [], follower_count = 100, following_count = 10, power_badge = False\<rparr>]))
     = [''0xab'', ''0xcd'', ''0xef'']
   \<and> distinct (allWallets ''0xAB'' (getFarcasterWallets (Some [\<lparr>u_fid = 7, username = ''a'', display_name = ''a'',
      pfp_url = [], custody_address = ''0xCD'', eth_addresses = [''0xab'', ''0xEF'', ''0xcd''],
      sol_addresses = [], follower_count = 100, following_count = 10, power_badge = False\<rparr>])))"
proof -
  have v: "allWallets ''0xAB'' (getFarcasterWallets (Some [\<lparr>u_fid = 7, username = ''a'', display_name = ''a'',
      pfp_url = [], custody_address = ''0xCD'', eth_addresses = [''0xab'', ''0xEF'', ''0xcd''],
      sol_addresses = [], follower_count = 100, following_count = 10, power_badge = False\<rparr>]))
     = [''0xab'', ''0xcd'', ''0xef'']"
    by code_simp
  have p: "(0::int) < 7" by simp
  note r = resolver_output [of "''0xAB''" 7 "Some [\<lparr>u_fid = 7, username = ''a'', display_name = ''a'',
      pfp_url = [], custody_address = ''0xCD'', eth_addresses = [''0xab'', ''0xEF'', ''0xcd''],
      sol_addresses = [], follower_count = 100, following_count = 10, power_badge = False\<rparr>]", unfolded if_P [OF p]]
  from r have "distinct (allWallets ''0xAB'' (getFarcasterWallets (Some [\<lparr>u_fid = 7, username = ''a'', display_name = ''a'',
      pfp_url = [], custody_address = ''0xCD'', eth_addresses = [''0xab'', ''0xEF'', ''0xcd''],
      sol_addresses = [], follower_count = 100, following_count = 10, power_badge = False\<rparr>])))"
    by (rule conjunct1 [OF conjunct2])
  with v show ?thesis by (rule conjI)
qed

section \<open>Verification flow: properties\<close>

lemma getPending_deletePending: "getPending (deletePending sid db) sid = None"
  by (simp add: getPending_def deletePending_def)

lemma verifications_deletePending: "verifications (deletePending sid db) = verifications db"
  by (simp add: deletePending_def)

lemma pendings_storeVerification:
  "pendings (storeVerification now fid w d n b db) = pendings db"
  by (simp add: storeVerification_def)

text \<open>The callback once the session is found and the OAuth exchange has answered.\<close>

lemma callback_found:
  assumes "code \<noteq> []" "state \<noteq> []" "getPending db state = Some pending"
    "discord_oauth env code = Some u"
    "ws = allWallets (p_wallet pending)
            (if 0 < p_fid pending then getFarcasterWallets (neynar_bulk env (p_fid pending)) else [])"
  shows "callback env now code state db =
     (if 0 < fst (check_wallets (balanceOf env) ws (0, None))
         \<and> truthy (snd (check_wallets (balanceOf env) ws (0, None)))
      then verify_holder env now state pending u (fst (check_wallets (balanceOf env) ws (0, None)))
             (case snd (check_wallets (balanceOf env) ws (0, None)) of Some w \<Rightarrow> w | None \<Rightarrow> []) db
      else (deletePending state db, NoNFT ws))"
  using assms by (simp add: callback_def Let_def split: prod.split)

text \<open>What each outcome of the holder branch does to the store.\<close>

lemma verify_holder_granted:
  assumes "\<not> linked_elsewhere (if 0 < p_fid p then getVerificationByFid db (p_fid p) else None) (du_id u)"
    "\<not> linked_elsewhere (getVerificationByWallet db hw) (du_id u)"
    "role_add env (du_id u)"
  shows "verify_holder env now sid p u tot hw db =
     (deletePending sid (storeVerification now (p_fid p) hw (du_id u) (du_username u) tot db),
      Success (du_username u) tot
        (if 0 < p_fid p then calculateSybilScore (getFarcasterUser (neynar_bulk env (p_fid p))) else 0))"
  using assms by (simp add: verify_holder_def Let_def)

lemma verify_holder_refused:
  assumes "\<not> linked_elsewhere (if 0 < p_fid p then getVerificationByFid db (p_fid p) else None) (du_id u)"
    "\<not> linked_elsewhere (getVerificationByWallet db hw) (du_id u)"
    "\<not> role_add env (du_id u)"
  shows "verify_holder env now sid p u tot hw db = (db, RoleAssignFailed)"
  using assms by (simp add: verify_holder_def Let_def)

lemma verify_holder_Success:
  assumes "verify_holder env now sid p u tot hw db = (db', Success n t sc)"
  shows "role_add env (du_id u)
     \<and> \<not> linked_elsewhere (if 0 < p_fid p then getVerificationByFid db (p_fid p) else None) (du_id u)
     \<and> \<not> linked_elsewhere (getVerificationByWallet db hw) (du_id u)
     \<and> db' = deletePending sid (storeVerification now (p_fid p) hw (du_id u) (du_username u) tot db)
     \<and> n = du_username u \<and> t = tot"
  using assms by (auto simp: verify_holder_def Let_def split: if_splits)

lemma verify_holder_RoleAssignFailed:
  assumes "snd (verify_holder env now sid p u tot hw db) = RoleAssignFailed"
  shows "fst (verify_holder env now sid p u tot hw db) = db \<and> \<not> role_add env (du_id u)"
  using assms by (auto simp: verify_holder_def Let_def split: if_splits)

lemma verify_holder_no_grant:
  assumes "\<not> role_add env (du_id u)"
  shows "verifications (fst (verify_holder env now sid p u tot hw db)) = verifications db"
  using assms by (simp add: verify_holder_def Let_def verifications_deletePending)

lemma verify_holder_pending:
  assumes "snd (verify_holder env now sid p u tot hw db) \<noteq> RoleAssignFailed"
  shows "getPending (fst (verify_holder env now sid p u tot hw db)) sid = None"
  using assms
  by (auto simp: verify_holder_def Let_def getPending_deletePending split: if_splits)

lemma verify_holder_not_error:
  "snd (verify_holder env now sid p u tot hw db) \<noteq> VerificationError"
  by (simp add: verify_holder_def Let_def)

lemma set_new_Set: "set (new_Set xs) = set xs"
  using foldl_add_unique_set [of "\<lambda>x. x" "[]" xs] by (simp add: new_Set_def)

lemma allWallets_lowercase:
  assumes "x \<in> set (allWallets w (if 0 < (fid::int) then getFarcasterWallets r else []))"
  shows "toLowerCase x = x"
  using assms getFarcasterWallets_lower [of x r]
  by (auto simp: allWallets_def set_new_Set toLowerCase_idem split: if_splits)

lemma upsert_mem: "row \<in> set (upsert row rows)"
  by (auto simp: upsert_def)

lemma check_wallets_holding_kept:
  "truthy h \<Longrightarrow> snd (check_wallets bal ws (t, h)) = h"
  by (induction ws arbitrary: t) (simp_all add: Let_def)

lemma check_wallets_holding:
  "[] \<notin> set ws \<Longrightarrow> \<not> truthy h \<Longrightarrow>
   snd (check_wallets bal ws (t, h))
     = (case find (\<lambda>w. 0 < getProtardioBalance bal w) ws of None \<Rightarrow> h | Some w \<Rightarrow> Some w)"
proof (induction ws arbitrary: t)
  case Nil
  show ?case by simp
next
  case (Cons w ws)
  from Cons.prems have w: "w \<noteq> []" and ws: "[] \<notin> set ws" by auto
  show ?case
  proof (cases "0 < getProtardioBalance bal w")
    case True
    have "truthy (Some w)" using w by (simp add: truthy_def)
    then show ?thesis using True Cons.prems(2)
      by (simp add: Let_def check_wallets_holding_kept)
  next
    case False
    then show ?thesis using Cons.IH [OF ws Cons.prems(2)] by simp
  qed
qed

lemma check_wallets_first_positive:
  assumes "[] \<notin> set ws"
  shows "snd (check_wallets bal ws (0, None)) = find (\<lambda>w. 0 < getProtardioBalance bal w) ws"
  using check_wallets_holding [OF assms, of None bal 0]
  by (simp add: truthy_def split: option.split)

lemma check_wallets_zero:
  "\<forall>w\<in>set ws. getProtardioBalance bal w = 0 \<Longrightarrow> check_wallets bal ws (t, h) = (t, h)"
  by (induction ws) simp_all

lemma callback_not_holder:
  assumes "code \<noteq> []" "state \<noteq> []" "getPending db state = Some pending"
    "discord_oauth env code = Some u"
    "ws = allWallets (p_wallet pending)
            (if 0 < p_fid pending then getFarcasterWallets (neynar_bulk env (p_fid pending)) else [])"
    "\<forall>w\<in>set ws. getProtardioBalance (balanceOf env) w = 0"
  shows "callback env now code state db = (deletePending state db, NoNFT ws)"
  unfolding callback_found [OF assms(1-5)] check_wallets_zero [OF assms(6)] by simp

lemma callback_success_row:
  assumes "code \<noteq> []" "state \<noteq> []" "getPending db state = Some pending"
    "discord_oauth env code = Some u"
    "ws = allWallets (p_wallet pending)
            (if 0 < p_fid pending then getFarcasterWallets (neynar_bulk env (p_fid pending)) else [])"
    "[] \<notin> set ws"
    "callback env now code state db = (db', Success n t sc)"
  shows "\<exists>w. find (\<lambda>w. 0 < getProtardioBalance (balanceOf env) w) ws = Some w
     \<and> \<lparr>v_fid = p_fid pending, v_wallet = w, discord_id = du_id u, discord_username = du_username u,
         nft_balance = sum_list (map (getProtardioBalance (balanceOf env)) ws),
         verified_at = now, last_checked = now\<rparr> \<in> set (verifications db')"
proof -
  let ?r = "check_wallets (balanceOf env) ws (0, None)"
  let ?hw = "case snd ?r of Some w \<Rightarrow> w | None \<Rightarrow> []"
  note c = callback_found [OF assms(1-5), of now]
  have pos: "0 < fst ?r \<and> truthy (snd ?r)"
  proof (rule ccontr)
    assume n: "\<not> (0 < fst ?r \<and> truthy (snd ?r))"
    have "callback env now code state db = (deletePending state db, NoNFT ws)"
      unfolding c using n by (rule if_not_P)
    then show False using assms(7) by simp
  qed
  then have vh: "verify_holder env now state pending u (fst ?r) ?hw db = (db', Success n t sc)"
    using c assms(7) by simp
  have f: "snd ?r = find (\<lambda>w. 0 < getProtardioBalance (balanceOf env) w) ws"
    using assms(6) by (rule check_wallets_first_positive)
  from pos obtain w where w: "snd ?r = Some w" by (auto simp: truthy_def split: option.splits)
  then have fw: "find (\<lambda>w. 0 < getProtardioBalance (balanceOf env) w) ws = Some w"
    using f by simp
  then have "w \<in> set ws" by (auto simp: find_Some_iff)
  then have lw: "toLowerCase w = w" unfolding assms(5) by (rule allWallets_lowercase)
  have tot: "fst ?r = sum_list (map (getProtardioBalance (balanceOf env)) ws)"
    by (simp add: check_wallets_total)
  have "db' = deletePending state
      (storeVerification now (p_fid pending) w (du_id u) (du_username u) (fst ?r) db)"
    using verify_holder_Success [OF vh] w by simp
  then have "verifications db' = upsert \<lparr>v_fid = p_fid pending, v_wallet = w, discord_id = du_id u,
         discord_username = du_username u,
         nft_balance = sum_list (map (getProtardioBalance (balanceOf env)) ws),
         verified_at = now, last_checked = now\<rparr> (verifications db)"
    using lw tot by (simp add: verifications_deletePending storeVerification_def)
  then show ?thesis using fw upsert_mem by simp
qed

text \<open>
  Claim C2. For a wallet list without the empty string, the wallet that the loop
  records is the first one, in list order, whose balance is positive. When the
  callback reports success, the row it has written for the Discord account carries that
  wallet. When every balance is 0 (a read that throws counts 0), the loop records no
  wallet, the callback answers with the not-a-holder page and the table of Bindings is
  unchanged.
\<close>

theorem primary_wallet_first_positive:
  "([] \<notin> set ws \<longrightarrow>
      snd (check_wallets bal ws (0, None)) = find (\<lambda>w. 0 < getProtardioBalance bal w) ws)
 \<and> ((\<forall>w\<in>set ws. getProtardioBalance bal w = 0) \<longrightarrow> check_wallets bal ws (0, None) = (0, None))
 \<and> (code \<noteq> [] \<and> state \<noteq> [] \<and> getPending db state = Some pending
      \<and> discord_oauth env code = Some u
      \<and> cs = allWallets (p_wallet pending)
            (if 0 < p_fid pending then getFarcasterWallets (neynar_bulk env (p_fid pending)) else [])
    \<longrightarrow>
      ((\<forall>w\<in>set cs. getProtardioBalance (balanceOf env) w = 0) \<longrightarrow>
         snd (callback env now code state db) = NoNFT cs
         \<and> verifications (fst (callback env now code state db)) = verifications db)
    \<and> ([] \<notin> set cs \<and> callback env now code state db = (db', Success n t sc) \<longrightarrow>
         (\<exists>w r. find (\<lambda>w. 0 < getProtardioBalance (balanceOf env) w) cs = Some w
            \<and> r \<in> set (verifications db') \<and> discord_id r = du_id u \<and> v_wallet r = w)))"
proof (intro conjI impI)
  assume "[] \<notin> set ws"
  then show "snd (check_wallets bal ws (0, None)) = find (\<lambda>w. 0 < getProtardioBalance bal w) ws"
    by (rule check_wallets_first_positive)
next
  assume "\<forall>w\<in>set ws. getProtardioBalance bal w = 0"
  then show "check_wallets bal ws (0, None) = (0, None)" by (rule check_wallets_zero)
next
  assume a: "code \<noteq> [] \<and> state \<noteq> [] \<and> getPending db state = Some pending
      \<and> discord_oauth env code = Some u
      \<and> cs = allWallets (p_wallet pending)
            (if 0 < p_fid pending then getFarcasterWallets (neynar_bulk env (p_fid pending)) else [])"
    and z: "\<forall>w\<in>set cs. getProtardioBalance (balanceOf env) w = 0"
  have "callback env now code state db = (deletePending state db, NoNFT cs)"
    using a z by (intro callback_not_holder) simp_all
  then show "snd (callback env now code state db) = NoNFT cs"
    and "verifications (fst (callback env now code state db)) = verifications db"
    by (simp_all add: verifications_deletePending)
next
  assume a: "code \<noteq> [] \<and> state \<noteq> [] \<and> getPending db state = Some pending
      \<and> discord_oauth env code = Some u
      \<and> cs = allWallets (p_wallet pending)
            (if 0 < p_fid pending then getFarcasterWallets (neynar_bulk env (p_fid pending)) else [])"
    and s: "[] \<notin> set cs \<and> callback env now code state db = (db', Success n t sc)"
  have "\<exists>w. find (\<lambda>w. 0 < getProtardioBalance (balanceOf env) w) cs = Some w
     \<and> \<lparr>v_fid = p_fid pending, v_wallet = w, discord_id = du_id u, discord_username = du_username u,
         nft_balance = sum_list (map (getProtardioBalance (balanceOf env)) cs),
         verified_at = now, last_checked = now\<rparr> \<in> set (verifications db')"
    using callback_success_row [of code state db pending env u cs now db' n t sc] a s by blast
  then obtain w where
    "find (\<lambda>w. 0 < getProtardioBalance (balanceOf env) w) cs = Some w"
    "\<lparr>v_fid = p_fid pending, v_wallet = w, discord_id = du_id u, discord_username = du_username u,
         nft_balance = sum_list (map (getProtardioBalance (balanceOf env)) cs),
         verified_at = now, last_checked = now\<rparr> \<in> set (verifications db')"
    by blast
  then show "\<exists>w r. find (\<lambda>w. 0 < getProtardioBalance (balanceOf env) w) cs = Some w
            \<and> r \<in> set (verifications db') \<and> discord_id r = du_id u \<and> v_wallet r = w"
    by force
qed

theorem primary_wallet_first_positive_witness:
  "snd (check_wallets (balanceOf (scenario_env ''D1'' ''alice'' True)) [''0xccc'', ''0xbbb''] (0, None))
     = Some ''0xbbb''
 \<and> snd (callback (scenario_env ''D1'' ''alice'' True) 10 ''code'' ''s1''
        (started_db ''s1'' 0 ''0xCCC'')) = NoNFT [''0xccc'']
 \<and> verifications (fst (callback (scenario_env ''D1'' ''alice'' True) 10 ''code'' ''s1''
        (started_db ''s1'' 0 ''0xCCC''))) = verifications (started_db ''s1'' 0 ''0xCCC'')"
proof -
  let ?env = "scenario_env ''D1'' ''alice'' True"
  let ?db = "started_db ''s1'' 0 ''0xCCC''"
  let ?p = "\<lparr>session_id = ''s1'', p_fid = 0, p_wallet = ''0xccc'', created_at = 0\<rparr>"
  let ?u = "\<lparr>du_id = ''D1'', du_username = ''alice''\<rparr>"
  note t = primary_wallet_first_positive [where ws = "[''0xccc'', ''0xbbb'']"
      and bal = "balanceOf ?env" and code = "''code''" and state = "''s1''" and db = ?db
      and pending = ?p and env = ?env and u = ?u and cs = "[''0xccc'']" and now = 10]
  have h1: "[] \<notin> set [''0xccc'', ''0xbbb'']" by simp
  have f: "find (\<lambda>w. 0 < getProtardioBalance (balanceOf ?env) w) [''0xccc'', ''0xbbb'']
             = Some ''0xbbb''"
    by code_simp
  have a: "snd (check_wallets (balanceOf ?env) [''0xccc'', ''0xbbb''] (0, None)) = Some ''0xbbb''"
    using t h1 f by simp
  have h2: "''code'' \<noteq> []" "''s1'' \<noteq> []" by simp_all
  have h3: "getPending ?db ''s1'' = Some ?p" by code_simp
  have h4: "discord_oauth ?env ''code'' = Some ?u" by (simp add: scenario_env_def)
  have h5: "[''0xccc''] = allWallets (p_wallet ?p)
      (if 0 < p_fid ?p then getFarcasterWallets (neynar_bulk ?env (p_fid ?p)) else [])"
    by code_simp
  have "getProtardioBalance (balanceOf ?env) ''0xccc'' = 0" by code_simp
  then have h6: "\<forall>w\<in>set [''0xccc'']. getProtardioBalance (balanceOf ?env) w = 0" by simp
  have b: "snd (callback ?env 10 ''code'' ''s1'' ?db) = NoNFT [''0xccc'']
     \<and> verifications (fst (callback ?env 10 ''code'' ''s1'' ?db)) = verifications ?db"
    using t h2 h3 h4 h5 h6 by blast
  show ?thesis using a b by blast
qed

lemma callback_no_grant:
  assumes "\<forall>u. discord_oauth env code = Some u \<longrightarrow> \<not> role_add env (du_id u)"
  shows "verifications (fst (callback env now code state db)) = verifications db"
  using assms
  by (auto simp: callback_def Let_def verify_holder_no_grant verifications_deletePending
      split: option.splits prod.splits)

lemma callback_RoleAssignFailed:
  assumes "snd (callback env now code state db) = RoleAssignFailed"
  shows "fst (callback env now code state db) = db"
  using assms
  by (auto simp: callback_def Let_def verify_holder_RoleAssignFailed
      split: option.splits prod.splits if_splits)

lemma callback_VerificationError:
  assumes "snd (callback env now code state db) = VerificationError"
  shows "fst (callback env now code state db) = db"
  using assms
  by (auto simp: callback_def Let_def verify_holder_not_error
      split: option.splits prod.splits if_splits)

lemma callback_consumes:
  assumes "code \<noteq> []" "state \<noteq> []" "getPending db state \<noteq> None"
    "snd (callback env now code state db) \<noteq> RoleAssignFailed"
    "snd (callback env now code state db) \<noteq> VerificationError"
  shows "getPending (fst (callback env now code state db)) state = None"
  using assms
  by (auto simp: callback_def Let_def verify_holder_pending getPending_deletePending
      split: option.splits prod.splits if_splits)

lemma callback_unknown_session:
  assumes "code \<noteq> []" "state \<noteq> []" "getPending db state = None"
  shows "callback env now code state db = (db, InvalidSession)"
  using assms by (simp add: callback_def)

text \<open>
  Claim C4. The callback writes a Binding only after the role grant has succeeded: when
  the grant fails for the account that the OAuth exchange returns, the table of Bindings
  is unchanged. When the holder branch reaches the grant (no conflict) and the grant
  fails, it answers with the role-failure page and returns the store as it was; and
  whenever the callback answers with that page the whole store, the PendingSession
  included, is unchanged.
\<close>

theorem grant_precedes_persist:
  "((\<forall>u. discord_oauth env code = Some u \<longrightarrow> \<not> role_add env (du_id u)) \<longrightarrow>
      verifications (fst (callback env now code state db)) = verifications db)
 \<and> (\<not> linked_elsewhere (if 0 < p_fid p then getVerificationByFid db (p_fid p) else None) (du_id v)
      \<and> \<not> linked_elsewhere (getVerificationByWallet db hw) (du_id v)
      \<and> \<not> role_add env (du_id v) \<longrightarrow>
      verify_holder env now sid p v tot hw db = (db, RoleAssignFailed))
 \<and> (snd (callback env now code state db) = RoleAssignFailed \<longrightarrow>
      fst (callback env now code state db) = db)"
proof (intro conjI impI)
  assume "\<forall>u. discord_oauth env code = Some u \<longrightarrow> \<not> role_add env (du_id u)"
  then show "verifications (fst (callback env now code state db)) = verifications db"
    by (rule callback_no_grant)
next
  assume "\<not> linked_elsewhere (if 0 < p_fid p then getVerificationByFid db (p_fid p) else None) (du_id v)
      \<and> \<not> linked_elsewhere (getVerificationByWallet db hw) (du_id v)
      \<and> \<not> role_add env (du_id v)"
  then show "verify_holder env now sid p v tot hw db = (db, RoleAssignFailed)"
    by (simp add: verify_holder_refused)
next
  assume "snd (callback env now code state db) = RoleAssignFailed"
  then show "fst (callback env now code state db) = db" by (rule callback_RoleAssignFailed)
qed

theorem grant_precedes_persist_witness:
  "callback (scenario_env ''D1'' ''alice'' False) 10 ''code'' ''s1'' (started_db ''s1'' 42 ''0xAAA'')
     = (started_db ''s1'' 42 ''0xAAA'', RoleAssignFailed)"
proof -
  let ?env = "scenario_env ''D1'' ''alice'' False"
  let ?db = "started_db ''s1'' 42 ''0xAAA''"
  have s: "snd (callback ?env 10 ''code'' ''s1'' ?db) = RoleAssignFailed" by code_simp
  have "fst (callback ?env 10 ''code'' ''s1'' ?db) = ?db"
    using grant_precedes_persist [of ?env "''code''" 10 "''s1''" ?db] s by blast
  with s show ?thesis by (simp add: prod_eq_iff)
qed

text \<open>
  Claim C8, as the code has it. When the callback has read a session and answers with
  anything but the role-failure page or the server-error page, the session is deleted
  and a later callback with the same \<open>state\<close> finds no session and changes nothing.
  When it answers with the role-failure page or the server-error page (the OAuth
  exchange failed), the store is unchanged, so the session is still there and the same
  session id can start another attempt.
\<close>

theorem session_consumed_amended:
  "code \<noteq> [] \<and> state \<noteq> [] \<and> getPending db state \<noteq> None \<longrightarrow>
     (snd (callback env now code state db) \<noteq> RoleAssignFailed
        \<and> snd (callback env now code state db) \<noteq> VerificationError \<longrightarrow>
          getPending (fst (callback env now code state db)) state = None
          \<and> (code' \<noteq> [] \<longrightarrow>
               callback env' now' code' state (fst (callback env now code state db))
                 = (fst (callback env now code state db), InvalidSession)))
   \<and> (snd (callback env now code state db) = RoleAssignFailed
        \<or> snd (callback env now code state db) = VerificationError \<longrightarrow>
          fst (callback env now code state db) = db)"
proof (intro conjI impI)
  assume a: "code \<noteq> [] \<and> state \<noteq> [] \<and> getPending db state \<noteq> None"
    and b: "snd (callback env now code state db) \<noteq> RoleAssignFailed
        \<and> snd (callback env now code state db) \<noteq> VerificationError"
  show g: "getPending (fst (callback env now code state db)) state = None"
    using a b by (intro callback_consumes) simp_all
  assume "code' \<noteq> []"
  then show "callback env' now' code' state (fst (callback env now code state db))
                 = (fst (callback env now code state db), InvalidSession)"
    using a g by (intro callback_unknown_session) simp_all
next
  assume "snd (callback env now code state db) = RoleAssignFailed
        \<or> snd (callback env now code state db) = VerificationError"
  then show "fst (callback env now code state db) = db"
    using callback_RoleAssignFailed callback_VerificationError by blast
qed

text \<open>
  Session \<open>s1\<close> is read by a first callback, whose role grant fails, and then by a
  second one, which succeeds: one session id has driven two verification attempts.
\<close>

theorem session_reused_counterexample:
  "snd (callback (scenario_env ''D1'' ''alice'' False) 10 ''code1'' ''s1''
          (started_db ''s1'' 42 ''0xAAA'')) = RoleAssignFailed
 \<and> getPending (fst (callback (scenario_env ''D1'' ''alice'' False) 10 ''code1'' ''s1''
          (started_db ''s1'' 42 ''0xAAA''))) ''s1''
     = Some \<lparr>session_id = ''s1'', p_fid = 42, p_wallet = ''0xaaa'', created_at = 0\<rparr>
 \<and> snd (callback (scenario_env ''D1'' ''alice'' True) 20 ''code2'' ''s1''
        (fst (callback (scenario_env ''D1'' ''alice'' False) 10 ''code1'' ''s1''
           (started_db ''s1'' 42 ''0xAAA'')))) = Success ''alice'' 2 0"
  by code_simp

theorem session_consumed_amended_witness:
  "getPending (fst (callback (scenario_env ''D1'' ''alice'' True) 10 ''code1'' ''s1''
          (started_db ''s1'' 42 ''0xAAA''))) ''s1'' = None
 \<and> callback (scenario_env ''D1'' ''alice'' True) 20 ''code2'' ''s1''
        (fst (callback (scenario_env ''D1'' ''alice'' True) 10 ''code1'' ''s1''
           (started_db ''s1'' 42 ''0xAAA'')))
     = (fst (callback (scenario_env ''D1'' ''alice'' True) 10 ''code1'' ''s1''
           (started_db ''s1'' 42 ''0xAAA'')), InvalidSession)"
proof -
  let ?env = "scenario_env ''D1'' ''alice'' True"
  let ?db = "started_db ''s1'' 42 ''0xAAA''"
  have h1: "''code1'' \<noteq> []" "''s1'' \<noteq> []" "''code2'' \<noteq> []" by simp_all
  have h2: "getPending ?db ''s1'' \<noteq> None" by code_simp
  have h3: "snd (callback ?env 10 ''code1'' ''s1'' ?db) = Success ''alice'' 2 0" by code_simp
  have h4: "snd (callback ?env 10 ''code1'' ''s1'' ?db) \<noteq> RoleAssignFailed"
    "snd (callback ?env 10 ''code1'' ''s1'' ?db) \<noteq> VerificationError"
    unfolding h3 by simp_all
  show ?thesis
    using session_consumed_amended [of "''code1''" "''s1''" ?db ?env 10 "''code2''" ?env 20]
      h1 h2 h4 by blast
qed

section \<open>Binding Registry: properties\<close>

lemma upsert_ids:
  "discord_id row \<in> discord_id ` set rows \<Longrightarrow>
   map discord_id (upsert row rows) = map discord_id rows"
proof -
  assume a: "discord_id row \<in> discord_id ` set rows"
  have "map discord_id (map (\<lambda>r. if discord_id r = discord_id row then row else r) rows)
        = map discord_id rows"
    unfolding map_map by (rule map_cong [OF refl]) simp
  then show ?thesis using a by (simp only: upsert_def if_True)
qed

lemma upsert_upsert:
  assumes "discord_id r2 = discord_id r1"
  shows "upsert r2 (upsert r1 rows) = upsert r2 rows"
proof (cases "discord_id r1 \<in> discord_id ` set rows")
  case True
  let ?g = "\<lambda>row r. if discord_id r = discord_id r1 then row else r"
  have u1: "upsert r1 rows = map (?g r1) rows" using True by (simp only: upsert_def if_True)
  have "set (map discord_id (upsert r1 rows)) = set (map discord_id rows)"
    using upsert_ids [OF True] by simp
  then have in1: "discord_id r2 \<in> discord_id ` set (upsert r1 rows)"
    using True assms by simp
  have "upsert r2 (upsert r1 rows) = map (?g r2) (upsert r1 rows)"
    using in1 assms by (simp only: upsert_def if_True)
  also have "\<dots> = map (?g r2) rows"
    unfolding u1 map_map by (rule map_cong [OF refl]) simp
  also have "\<dots> = upsert r2 rows"
    using True assms by (simp only: upsert_def if_True)
  finally show ?thesis .
next
  case False
  then have "map (\<lambda>r. if discord_id r = discord_id r1 then r2 else r) rows = rows"
    by (intro map_idI) (auto simp: image_iff)
  then show ?thesis using False assms by (simp add: upsert_def)
qed

lemma upsert_present:
  "discord_id row \<in> discord_id ` set rows \<Longrightarrow>
   upsert row rows = map (\<lambda>r. if discord_id r = discord_id row then row else r) rows"
  by (simp add: upsert_def)

lemma upsert_has_id: "discord_id row \<in> discord_id ` set (upsert row rows)"
  by (auto simp: upsert_def image_iff)

lemma upsert_rows_with_id:
  "r \<in> set (upsert row rows) \<Longrightarrow> discord_id r = discord_id row \<Longrightarrow> r = row"
  by (auto simp: upsert_def image_iff split: if_splits)

lemma single_filter_mem:
  assumes "x \<in> set xs" "P x" "single (filter P xs) = Some e"
  shows "e = x"
proof -
  from assms(3) have "filter P xs = [e]" by (cases "filter P xs" rule: single.cases) simp_all
  moreover have "x \<in> set (filter P xs)" using assms(1,2) by simp
  ultimately show ?thesis by simp
qed

text \<open>A row of the account itself is never a conflict.\<close>

lemma own_row_not_elsewhere:
  assumes "x \<in> set xs" "P x" "discord_id x = d"
  shows "\<not> linked_elsewhere (single (filter P xs)) d"
proof (cases "single (filter P xs)")
  case None
  then show ?thesis by (simp add: linked_elsewhere_def)
next
  case (Some e)
  have "e = x" using assms(1,2) Some by (rule single_filter_mem)
  then show ?thesis using Some assms(3) by (simp add: linked_elsewhere_def)
qed

lemma verify_holder_again:
  assumes "verify_holder env now sid p u tot hw db = (db1, Success n t sc)"
    and "role_add env' (du_id u)"
    and "p_fid p' = p_fid p"
  shows "verify_holder env' now' sid' p' u tot hw db1 =
     (deletePending sid'
        (db1\<lparr>verifications :=
            map (\<lambda>r. if discord_id r = du_id u
                      then r\<lparr>verified_at := now', last_checked := now'\<rparr> else r)
              (verifications db1)\<rparr>),
      Success n t
        (if 0 < p_fid p' then calculateSybilScore (getFarcasterUser (neynar_bulk env' (p_fid p')))
         else 0))"
proof -
  let ?row = "\<lambda>now. \<lparr>v_fid = p_fid p, v_wallet = toLowerCase hw, discord_id = du_id u,
                  discord_username = du_username u, nft_balance = tot,
                  verified_at = now, last_checked = now\<rparr>"
  note s = verify_holder_Success [OF assms(1)]
  from s have db1: "db1 = deletePending sid (storeVerification now (p_fid p) hw (du_id u) (du_username u) tot db)"
    and n: "n = du_username u" and t: "t = tot" by simp_all
  have v1: "verifications db1 = upsert (?row now) (verifications db)"
    using db1 by (simp add: verifications_deletePending storeVerification_def)
  have mem: "?row now \<in> set (verifications db1)" unfolding v1 by (rule upsert_mem)
  have c1: "\<not> linked_elsewhere (if 0 < p_fid p' then getVerificationByFid db1 (p_fid p') else None) (du_id u)"
  proof (cases "0 < p_fid p")
    case True
    then show ?thesis
      using own_row_not_elsewhere [OF mem, of "\<lambda>r. v_fid r = p_fid p" "du_id u"]
      by (simp add: getVerificationByFid_def assms(3))
  next
    case False
    then show ?thesis by (simp add: linked_elsewhere_def assms(3))
  qed
  have c2: "\<not> linked_elsewhere (getVerificationByWallet db1 hw) (du_id u)"
    using own_row_not_elsewhere [OF mem, of "\<lambda>r. v_wallet r = toLowerCase hw" "du_id u"]
    by (simp add: getVerificationByWallet_def)
  have "upsert (?row now') (verifications db1)
      = map (\<lambda>r. if discord_id r = du_id u then ?row now' else r) (verifications db1)"
    using upsert_has_id [of "?row now" "verifications db"] upsert_present [of "?row now'" "verifications db1"]
    by (simp add: v1)
  also have "\<dots> = map (\<lambda>r. if discord_id r = du_id u
                    then r\<lparr>verified_at := now', last_checked := now'\<rparr> else r) (verifications db1)"
  proof (rule map_cong [OF refl])
    fix r assume "r \<in> set (verifications db1)"
    then have "discord_id r = du_id u \<Longrightarrow> r = ?row now"
      unfolding v1 using upsert_rows_with_id [of r "?row now" "verifications db"] by simp
    then show "(if discord_id r = du_id u then ?row now' else r)
         = (if discord_id r = du_id u then r\<lparr>verified_at := now', last_checked := now'\<rparr> else r)"
      by auto
  qed
  finally have u2: "upsert (?row now') (verifications db1)
      = map (\<lambda>r. if discord_id r = du_id u
                    then r\<lparr>verified_at := now', last_checked := now'\<rparr> else r) (verifications db1)" .
  have "storeVerification now' (p_fid p') hw (du_id u) (du_username u) tot db1
      = db1\<lparr>verifications :=
          map (\<lambda>r. if discord_id r = du_id u
                    then r\<lparr>verified_at := now', last_checked := now'\<rparr> else r)
            (verifications db1)\<rparr>"
    using u2 by (simp add: storeVerification_def assms(3))
  then show ?thesis
    using verify_holder_granted [OF c1 c2 assms(2), of now' sid' tot] n t by simp
qed

lemma verify_holder_again_same_time:
  assumes "verify_holder env now sid p u tot hw db = (db1, Success n t sc)"
  shows "map (\<lambda>r. if discord_id r = du_id u
                    then r\<lparr>verified_at := now, last_checked := now\<rparr> else r)
            (verifications db1) = verifications db1"
proof -
  let ?row = "\<lparr>v_fid = p_fid p, v_wallet = toLowerCase hw, discord_id = du_id u,
                  discord_username = du_username u, nft_balance = tot,
                  verified_at = now, last_checked = now\<rparr>"
  from verify_holder_Success [OF assms]
  have "db1 = deletePending sid (storeVerification now (p_fid p) hw (du_id u) (du_username u) tot db)"
    by simp
  then have v1: "verifications db1 = upsert ?row (verifications db)"
    by (simp add: verifications_deletePending storeVerification_def)
  show ?thesis
  proof (rule map_idI)
    fix r assume "r \<in> set (verifications db1)"
    then have "discord_id r = du_id u \<Longrightarrow> r = ?row"
      unfolding v1 using upsert_rows_with_id [of r ?row "verifications db"] by simp
    then show "(if discord_id r = du_id u
                    then r\<lparr>verified_at := now, last_checked := now\<rparr> else r) = r"
      by auto
  qed
qed

text \<open>
  Claim C9, as the code has it. When a bind has succeeded and the same bind is made again
  (same account, social id, wallet, balance and name, the role grant succeeding again;
  the session may be another one), the second call succeeds, adds no record, and changes
  nothing in the table of Bindings but the two timestamps of the account's record, which
  take the time of the second call. The table is the same as after the first call when
  the clock reads the same.
\<close>

theorem rebind_overwrites:
  "verify_holder env now sid p u tot hw db = (db1, Success n t sc)
   \<and> role_add env' (du_id u) \<and> p_fid p' = p_fid p
   \<and> verify_holder env' now' sid' p' u tot hw db1 = (db2, out) \<longrightarrow>
     (\<exists>sc'. out = Success n t sc')
   \<and> verifications db2 =
        map (\<lambda>r. if discord_id r = du_id u
                  then r\<lparr>verified_at := now', last_checked := now'\<rparr> else r)
          (verifications db1)
   \<and> pendings db2 = filter (\<lambda>q. session_id q \<noteq> sid') (pendings db1)
   \<and> length (verifications db2) = length (verifications db1)
   \<and> (now' = now \<longrightarrow> verifications db2 = verifications db1)"
proof (intro impI)
  assume a: "verify_holder env now sid p u tot hw db = (db1, Success n t sc)
   \<and> role_add env' (du_id u) \<and> p_fid p' = p_fid p
   \<and> verify_holder env' now' sid' p' u tot hw db1 = (db2, out)"
  then have f: "verify_holder env now sid p u tot hw db = (db1, Success n t sc)"
    and g: "role_add env' (du_id u)"
    and e: "p_fid p' = p_fid p"
    and s: "verify_holder env' now' sid' p' u tot hw db1 = (db2, out)" by simp_all
  note again = verify_holder_again [OF f g e, of now' sid']
  have d: "db2 = deletePending sid'
        (db1\<lparr>verifications :=
            map (\<lambda>r. if discord_id r = du_id u
                      then r\<lparr>verified_at := now', last_checked := now'\<rparr> else r)
              (verifications db1)\<rparr>)"
    using again s by simp
  have o: "\<exists>sc'. out = Success n t sc'" using again s by simp
  have v: "verifications db2 =
        map (\<lambda>r. if discord_id r = du_id u
                  then r\<lparr>verified_at := now', last_checked := now'\<rparr> else r)
          (verifications db1)"
    unfolding d by (simp add: deletePending_def)
  have q: "pendings db2 = filter (\<lambda>q. session_id q \<noteq> sid') (pendings db1)"
    unfolding d by (simp add: deletePending_def)
  have l: "length (verifications db2) = length (verifications db1)" unfolding v by simp
  have m: "now' = now \<longrightarrow> verifications db2 = verifications db1"
  proof
    assume same: "now' = now"
    show "verifications db2 = verifications db1"
      unfolding v same by (rule verify_holder_again_same_time [OF f])
  qed
  show "(\<exists>sc'. out = Success n t sc')
   \<and> verifications db2 =
        map (\<lambda>r. if discord_id r = du_id u
                  then r\<lparr>verified_at := now', last_checked := now'\<rparr> else r)
          (verifications db1)
   \<and> pendings db2 = filter (\<lambda>q. session_id q \<noteq> sid') (pendings db1)
   \<and> length (verifications db2) = length (verifications db1)
   \<and> (now' = now \<longrightarrow> verifications db2 = verifications db1)"
    using o v q l m by (intro conjI)
qed

text \<open>
  The same bind at time 10 and again at time 20: after the second call the record holds
  the timestamps 20, not 10, so the store is not what it was after the first call.
\<close>

theorem rebind_timestamps_counterexample:
  "verifications (fst (verify_holder (scenario_env ''D1'' ''alice'' True) 10 ''s1''
       \<lparr>session_id = ''s1'', p_fid = 42, p_wallet = ''0xaaa'', created_at = 0\<rparr>
       \<lparr>du_id = ''D1'', du_username = ''alice''\<rparr> 2 ''0xaaa'' empty_db))
     = [\<lparr>v_fid = 42, v_wallet = ''0xaaa'', discord_id = ''D1'', discord_username = ''alice'',
         nft_balance = 2, verified_at = 10, last_checked = 10\<rparr>]
 \<and> verifications (fst (verify_holder (scenario_env ''D1'' ''alice'' True) 20 ''s1''
       \<lparr>session_id = ''s1'', p_fid = 42, p_wallet = ''0xaaa'', created_at = 0\<rparr>
       \<lparr>du_id = ''D1'', du_username = ''alice''\<rparr> 2 ''0xaaa''
       (fst (verify_holder (scenario_env ''D1'' ''alice'' True) 10 ''s1''
          \<lparr>session_id = ''s1'', p_fid = 42, p_wallet = ''0xaaa'', created_at = 0\<rparr>
          \<lparr>du_id = ''D1'', du_username = ''alice''\<rparr> 2 ''0xaaa'' empty_db))))
     = [\<lparr>v_fid = 42, v_wallet = ''0xaaa'', discord_id = ''D1'', discord_username = ''alice'',
         nft_balance = 2, verified_at = 20, last_checked = 20\<rparr>]"
  by code_simp

theorem rebind_overwrites_witness:
  "length (verifications (fst (verify_holder (scenario_env ''D1'' ''alice'' True) 20 ''s2''
       \<lparr>session_id = ''s2'', p_fid = 42, p_wallet = ''0xaaa'', created_at = 15\<rparr>
       \<lparr>du_id = ''D1'', du_username = ''alice''\<rparr> 2 ''0xaaa''
       (fst (verify_holder (scenario_env ''D1'' ''alice'' True) 10 ''s1''
          \<lparr>session_id = ''s1'', p_fid = 42, p_wallet = ''0xaaa'', created_at = 0\<rparr>
          \<lparr>du_id = ''D1'', du_username = ''alice''\<rparr> 2 ''0xaaa'' empty_db)))))
   = length (verifications (fst (verify_holder (scenario_env ''D1'' ''alice'' True) 10 ''s1''
          \<lparr>session_id = ''s1'', p_fid = 42, p_wallet = ''0xaaa'', created_at = 0\<rparr>
          \<lparr>du_id = ''D1'', du_username = ''alice''\<rparr> 2 ''0xaaa'' empty_db)))"
proof -
  let ?env = "scenario_env ''D1'' ''alice'' True"
  let ?p = "\<lparr>session_id = ''s1'', p_fid = 42, p_wallet = ''0xaaa'', created_at = 0\<rparr>"
  let ?p' = "\<lparr>session_id = ''s2'', p_fid = 42, p_wallet = ''0xaaa'', created_at = 15\<rparr>"
  let ?u = "\<lparr>du_id = ''D1'', du_username = ''alice''\<rparr>"
  let ?first = "verify_holder ?env 10 ''s1'' ?p ?u 2 ''0xaaa'' empty_db"
  let ?second = "verify_holder ?env 20 ''s2'' ?p' ?u 2 ''0xaaa'' (fst ?first)"
  have "snd ?first = Success ''alice'' 2 0" by code_simp
  then have h1: "?first = (fst ?first, Success ''alice'' 2 0)" by (simp add: prod_eq_iff)
  have h2: "role_add ?env (du_id ?u)" by (simp add: scenario_env_def)
  have h3: "?second = (fst ?second, snd ?second)" by simp
  have h4: "p_fid ?p' = p_fid ?p" by simp
  show ?thesis
    using rebind_overwrites [of ?env 10 "''s1''" ?p ?u 2 "''0xaaa''" empty_db "fst ?first"
        "''alice''" 2 0 ?env ?p' 20 "''s2''" "fst ?second" "snd ?second"] h1 h2 h3 h4
    by blast
qed

section \<open>Uniqueness of Bindings\<close>

text \<open>With distinct keys, a column has no duplicates iff equal values mean equal keys.\<close>

lemma distinct_column:
  assumes "distinct (map k xs)"
  shows "distinct (map f xs) \<longleftrightarrow> (\<forall>x\<in>set xs. \<forall>y\<in>set xs. f x = f y \<longrightarrow> k x = k y)"
proof -
  from assms have d: "distinct xs" and ik: "inj_on k (set xs)" by (simp_all add: distinct_map)
  have "distinct (map f xs) \<longleftrightarrow> inj_on f (set xs)" using d by (simp add: distinct_map)
  also have "\<dots> \<longleftrightarrow> (\<forall>x\<in>set xs. \<forall>y\<in>set xs. f x = f y \<longrightarrow> k x = k y)"
  proof
    assume "inj_on f (set xs)"
    then show "\<forall>x\<in>set xs. \<forall>y\<in>set xs. f x = f y \<longrightarrow> k x = k y"
      by (auto dest: inj_onD)
  next
    assume a: "\<forall>x\<in>set xs. \<forall>y\<in>set xs. f x = f y \<longrightarrow> k x = k y"
    show "inj_on f (set xs)"
    proof (rule inj_onI)
      fix x y assume "x \<in> set xs" "y \<in> set xs" "f x = f y"
      then have "k x = k y" using a by blast
      with ik show "x = y" using \<open>x \<in> set xs\<close> \<open>y \<in> set xs\<close> by (rule inj_onD)
    qed
  qed
  finally show ?thesis .
qed

lemma filter_one:
  assumes "distinct (map f xs)" "x \<in> set xs"
  shows "filter (\<lambda>y. f y = f x) xs = [x]"
  using assms
proof (induction xs)
  case Nil
  then show ?case by simp
next
  case (Cons a xs)
  show ?case
  proof (cases "a = x")
    case True
    then have "\<forall>y\<in>set xs. f y \<noteq> f x" using Cons.prems(1) by (auto simp: image_iff)
    then have "filter (\<lambda>y. f y = f x) xs = []" by (simp add: filter_empty_conv)
    then show ?thesis using True by simp
  next
    case False
    then have x: "x \<in> set xs" using Cons.prems(2) by simp
    then have "f a \<noteq> f x" using Cons.prems(1) by (auto simp: image_iff)
    then show ?thesis using Cons.IH x Cons.prems(1) by simp
  qed
qed

lemma set_upsert:
  "set (upsert row rows) \<subseteq> insert row {r \<in> set rows. discord_id r \<noteq> discord_id row}"
  by (auto simp: upsert_def image_iff)

lemma upsert_distinct_ids:
  assumes "distinct (map discord_id rows)"
  shows "distinct (map discord_id (upsert row rows))"
proof (cases "discord_id row \<in> discord_id ` set rows")
  case True
  then show ?thesis using assms by (simp only: upsert_ids)
next
  case False
  then show ?thesis using assms by (simp add: upsert_def)
qed

text \<open>
  The upsert keeps the table free of duplicates when the rows that already carry the
  new wallet, or the new positive social id, belong to the same account.
\<close>

lemma unique_bindings_upsert:
  assumes u: "unique_bindings rows"
    and w: "\<forall>r\<in>set rows. v_wallet r = v_wallet row \<longrightarrow> discord_id r = discord_id row"
    and f: "0 < v_fid row \<longrightarrow> (\<forall>r\<in>set rows. v_fid r = v_fid row \<longrightarrow> discord_id r = discord_id row)"
  shows "unique_bindings (upsert row rows)"
proof -
  let ?pos = "\<lambda>r. 0 < v_fid r"
  let ?new = "upsert row rows"
  from u have ids: "distinct (map discord_id rows)" by (simp add: unique_bindings_def)
  have idsf: "distinct (map discord_id (filter ?pos rows))"
    using ids by (rule distinct_map_filter)
  from u have dw: "distinct (map v_wallet rows)"
    and df: "distinct (map v_fid (filter ?pos rows))" by (simp_all add: unique_bindings_def)
  have uw: "\<forall>x\<in>set rows. \<forall>y\<in>set rows. v_wallet x = v_wallet y \<longrightarrow> discord_id x = discord_id y"
    using dw by (rule distinct_column [OF ids, THEN iffD1])
  have uf: "\<forall>x\<in>set (filter ?pos rows). \<forall>y\<in>set (filter ?pos rows).
        v_fid x = v_fid y \<longrightarrow> discord_id x = discord_id y"
    using df by (rule distinct_column [OF idsf, THEN iffD1])
  have ids': "distinct (map discord_id ?new)" using ids by (rule upsert_distinct_ids)
  have idsf': "distinct (map discord_id (filter ?pos ?new))"
    using ids' by (rule distinct_map_filter)
  have sub: "r = row \<or> r \<in> set rows" if "r \<in> set ?new" for r
    using set_upsert [of row rows] that by auto
  have w': "\<forall>x\<in>set ?new. \<forall>y\<in>set ?new. v_wallet x = v_wallet y \<longrightarrow> discord_id x = discord_id y"
  proof (intro ballI impI)
    fix x y assume x: "x \<in> set ?new" and y: "y \<in> set ?new" and e: "v_wallet x = v_wallet y"
    consider (a) "x = row" "y = row" | (b) "x = row" "y \<in> set rows"
      | (c) "x \<in> set rows" "y = row" | (d) "x \<in> set rows" "y \<in> set rows"
      using sub [OF x] sub [OF y] by blast
    then show "discord_id x = discord_id y"
    proof cases
      case a
      then show ?thesis by simp
    next
      case b
      then have "v_wallet y = v_wallet row" using e by simp
      then have "discord_id y = discord_id row" using w b(2) by blast
      then show ?thesis using b(1) by simp
    next
      case c
      then have "v_wallet x = v_wallet row" using e by simp
      then have "discord_id x = discord_id row" using w c(1) by blast
      then show ?thesis using c(2) by simp
    next
      case d
      then show ?thesis using uw e by blast
    qed
  qed
  have f': "\<forall>x\<in>set (filter ?pos ?new). \<forall>y\<in>set (filter ?pos ?new).
        v_fid x = v_fid y \<longrightarrow> discord_id x = discord_id y"
  proof (intro ballI impI)
    fix x y assume "x \<in> set (filter ?pos ?new)" and "y \<in> set (filter ?pos ?new)"
      and e: "v_fid x = v_fid y"
    then have x: "x \<in> set ?new" and px: "0 < v_fid x" and y: "y \<in> set ?new" and py: "0 < v_fid y"
      by simp_all
    consider (a) "x = row" "y = row" | (b) "x = row" "y \<in> set rows"
      | (c) "x \<in> set rows" "y = row" | (d) "x \<in> set rows" "y \<in> set rows"
      using sub [OF x] sub [OF y] by blast
    then show "discord_id x = discord_id y"
    proof cases
      case a
      then show ?thesis by simp
    next
      case b
      then have "v_fid y = v_fid row" "0 < v_fid row" using e px by simp_all
      then have "discord_id y = discord_id row" using f b(2) by blast
      then show ?thesis using b(1) by simp
    next
      case c
      then have "v_fid x = v_fid row" "0 < v_fid row" using e py by simp_all
      then have "discord_id x = discord_id row" using f c(1) by blast
      then show ?thesis using c(2) by simp
    next
      case d
      then have "x \<in> set (filter ?pos rows)" "y \<in> set (filter ?pos rows)"
        using px py by simp_all
      then show ?thesis using uf e by blast
    qed
  qed
  have "distinct (map v_wallet ?new)"
    using w' by (rule distinct_column [OF ids', THEN iffD2])
  moreover have "distinct (map v_fid (filter ?pos ?new))"
    using f' by (rule distinct_column [OF idsf', THEN iffD2])
  ultimately show ?thesis using ids' by (simp add: unique_bindings_def)
qed

text \<open>What a passed conflict check says about a table without duplicates.\<close>

lemma no_wallet_conflict:
  assumes "distinct (map v_wallet (verifications db))"
    and "\<not> linked_elsewhere (getVerificationByWallet db hw) d"
  shows "\<forall>r\<in>set (verifications db). v_wallet r = toLowerCase hw \<longrightarrow> discord_id r = d"
proof (intro ballI impI)
  fix r assume r: "r \<in> set (verifications db)" and e: "v_wallet r = toLowerCase hw"
  have "filter (\<lambda>y. v_wallet y = v_wallet r) (verifications db) = [r]"
    using assms(1) r by (rule filter_one)
  then have "getVerificationByWallet db hw = Some r"
    using e by (simp add: getVerificationByWallet_def)
  then show "discord_id r = d" using assms(2) by (simp add: linked_elsewhere_def)
qed

lemma no_fid_conflict:
  assumes "distinct (map v_fid (filter (\<lambda>r. 0 < v_fid r) (verifications db)))"
    and "0 < fid"
    and "\<not> linked_elsewhere (getVerificationByFid db fid) d"
  shows "\<forall>r\<in>set (verifications db). v_fid r = fid \<longrightarrow> discord_id r = d"
proof (intro ballI impI)
  fix r assume r: "r \<in> set (verifications db)" and e: "v_fid r = fid"
  let ?pos = "filter (\<lambda>r. 0 < v_fid r) (verifications db)"
  have "r \<in> set ?pos" using r e assms(2) by simp
  with assms(1) have "filter (\<lambda>y. v_fid y = v_fid r) ?pos = [r]" by (rule filter_one)
  moreover have "filter (\<lambda>y. v_fid y = v_fid r) ?pos
      = filter (\<lambda>y. v_fid y = fid) (verifications db)"
    unfolding filter_filter using e assms(2) by (intro filter_cong) auto
  ultimately have "filter (\<lambda>y. v_fid y = fid) (verifications db) = [r]"
    by (simp only:)
  then have "getVerificationByFid db fid = Some r"
    by (simp add: getVerificationByFid_def)
  then show "discord_id r = d" using assms(3) by (simp add: linked_elsewhere_def)
qed

lemma verify_holder_verifications:
  "verifications (fst (verify_holder env now sid p u tot hw db)) = verifications db
   \<or> (\<not> linked_elsewhere (if 0 < p_fid p then getVerificationByFid db (p_fid p) else None) (du_id u)
      \<and> \<not> linked_elsewhere (getVerificationByWallet db hw) (du_id u)
      \<and> verifications (fst (verify_holder env now sid p u tot hw db))
          = upsert \<lparr>v_fid = p_fid p, v_wallet = toLowerCase hw, discord_id = du_id u,
                  discord_username = du_username u, nft_balance = tot,
                  verified_at = now, last_checked = now\<rparr> (verifications db))"
  by (simp add: verify_holder_def Let_def verifications_deletePending storeVerification_def)

lemma verify_holder_unique:
  assumes "unique_bindings (verifications db)"
  shows "unique_bindings (verifications (fst (verify_holder env now sid p u tot hw db)))"
proof -
  let ?row = "\<lparr>v_fid = p_fid p, v_wallet = toLowerCase hw, discord_id = du_id u,
                  discord_username = du_username u, nft_balance = tot,
                  verified_at = now, last_checked = now\<rparr>"
  from assms have dw: "distinct (map v_wallet (verifications db))"
    and df: "distinct (map v_fid (filter (\<lambda>r. 0 < v_fid r) (verifications db)))"
    by (simp_all add: unique_bindings_def)
  consider (same) "verifications (fst (verify_holder env now sid p u tot hw db)) = verifications db"
    | (written) "\<not> linked_elsewhere (if 0 < p_fid p then getVerificationByFid db (p_fid p) else None) (du_id u)"
        "\<not> linked_elsewhere (getVerificationByWallet db hw) (du_id u)"
        "verifications (fst (verify_holder env now sid p u tot hw db)) = upsert ?row (verifications db)"
    using verify_holder_verifications [of env now sid p u tot hw db] by blast
  then show ?thesis
  proof cases
    case same
    then show ?thesis using assms by simp
  next
    case written
    have w: "\<forall>r\<in>set (verifications db). v_wallet r = v_wallet ?row \<longrightarrow> discord_id r = discord_id ?row"
      using no_wallet_conflict [OF dw written(2)] by simp
    have f: "0 < v_fid ?row \<longrightarrow>
        (\<forall>r\<in>set (verifications db). v_fid r = v_fid ?row \<longrightarrow> discord_id r = discord_id ?row)"
    proof
      assume "0 < v_fid ?row"
      then have pos: "0 < p_fid p" by simp
      then have "\<not> linked_elsewhere (getVerificationByFid db (p_fid p)) (du_id u)"
        using written(1) by simp
      from no_fid_conflict [OF df pos this]
      show "\<forall>r\<in>set (verifications db). v_fid r = v_fid ?row \<longrightarrow> discord_id r = discord_id ?row"
        by simp
    qed
    show ?thesis unfolding written(3) using assms w f by (rule unique_bindings_upsert)
  qed
qed

lemma callback_unique:
  assumes "unique_bindings (verifications db)"
  shows "unique_bindings (verifications (fst (callback env now code state db)))"
  using assms
  by (auto simp: callback_def Let_def verifications_deletePending verify_holder_unique
      split: option.splits prod.splits)

lemma callbacks_unique:
  "unique_bindings (verifications db) \<Longrightarrow> unique_bindings (verifications (callbacks reqs db))"
proof (induction reqs arbitrary: db)
  case Nil
  then show ?case by simp
next
  case (Cons req reqs)
  obtain env now code state where req: "req = (env, now, code, state)" by (cases req)
  have "unique_bindings (verifications (fst (callback env now code state db)))"
    using Cons.prems by (rule callback_unique)
  then show ?case unfolding req by (simp add: Cons.IH)
qed

text \<open>
  What the two conflict checks achieve. Starting from a table without duplicates (the
  empty table is one), after any sequence of callbacks, whatever their outcomes, the
  table has at most one record per Discord id, no two records with the same wallet, and
  no two records with the same positive social id.
\<close>

lemma bindings_stay_unique:
  "(unique_bindings (verifications db) \<longrightarrow> unique_bindings (verifications (callbacks reqs db)))
 \<and> unique_bindings (verifications (callbacks reqs empty_db))"
proof
  show "unique_bindings (verifications db) \<longrightarrow> unique_bindings (verifications (callbacks reqs db))"
    using callbacks_unique by blast
  have "unique_bindings (verifications empty_db)"
    by (simp add: empty_db_def unique_bindings_def)
  then show "unique_bindings (verifications (callbacks reqs empty_db))"
    by (rule callbacks_unique)
qed

text \<open>
  Two accounts that start a flow with the same social id 42: the second one is refused
  and the table keeps the one Binding.
\<close>

lemma bindings_stay_unique_scenario:
  "unique_bindings (verifications (callbacks
       [(scenario_env ''D1'' ''alice'' True, 10, ''c1'', ''s1''),
        (scenario_env ''D2'' ''bob'' True, 20, ''c2'', ''s2'')]
       (storePending 0 ''s2'' 42 ''0xBBB'' (started_db ''s1'' 42 ''0xAAA''))))
 \<and> verifications (callbacks
       [(scenario_env ''D1'' ''alice'' True, 10, ''c1'', ''s1''),
        (scenario_env ''D2'' ''bob'' True, 20, ''c2'', ''s2'')]
       (storePending 0 ''s2'' 42 ''0xBBB'' (started_db ''s1'' 42 ''0xAAA'')))
   = [\<lparr>v_fid = 42, v_wallet = ''0xaaa'', discord_id = ''D1'', discord_username = ''alice'',
        nft_balance = 2, verified_at = 10, last_checked = 10\<rparr>]"
proof -
  let ?db = "storePending 0 ''s2'' 42 ''0xBBB'' (started_db ''s1'' 42 ''0xAAA'')"
  let ?reqs = "[(scenario_env ''D1'' ''alice'' True, 10, ''c1'', ''s1''),
        (scenario_env ''D2'' ''bob'' True, 20, ''c2'', ''s2'')]"
  have "verifications ?db = []" by code_simp
  then have h: "unique_bindings (verifications ?db)" by (simp add: unique_bindings_def)
  have a: "unique_bindings (verifications (callbacks ?reqs ?db))"
    using bindings_stay_unique [of ?db ?reqs] h by blast
  have b: "verifications (callbacks ?reqs ?db)
   = [\<lparr>v_fid = 42, v_wallet = ''0xaaa'', discord_id = ''D1'', discord_username = ''alice'',
        nft_balance = 2, verified_at = 10, last_checked = 10\<rparr>]"
    by code_simp
  show ?thesis using a b by (rule conjI)
qed

text \<open>
  Claim C3. After any sequence of successful binds no two Bindings share a non-zero
  social id. The code does not keep this for a negative social id. Two flows are
  started with the social id \<open>-5\<close> and two wallets: the route \<open>GET /auth/discord\<close> stores
  \<open>Number(fid)\<close> unchecked, where the route \<open>POST /verify\<close> refuses a social id below 1.
  The callback makes its social-id check only under \<open>pending.fid > 0\<close>, a guard meant
  for the wallet-only flows (social id 0), so both callbacks succeed: the table ends
  with two records, of two Discord accounts, that share the non-zero social id \<open>-5\<close>.
\<close>

theorem negative_fid_shared:
  "verifications (callbacks
       [(scenario_env ''D1'' ''alice'' True, 10, ''c1'', ''s1''),
        (scenario_env ''D2'' ''bob'' True, 20, ''c2'', ''s2'')]
       (storePending 0 ''s2'' (- 5) ''0xBBB'' (started_db ''s1'' (- 5) ''0xAAA'')))
   = [\<lparr>v_fid = - 5, v_wallet = ''0xaaa'', discord_id = ''D1'', discord_username = ''alice'',
        nft_balance = 2, verified_at = 10, last_checked = 10\<rparr>,
      \<lparr>v_fid = - 5, v_wallet = ''0xbbb'', discord_id = ''D2'', discord_username = ''bob'',
        nft_balance = 3, verified_at = 20, last_checked = 20\<rparr>]
 \<and> \<not> distinct (map v_fid (filter (\<lambda>r. v_fid r \<noteq> 0) (verifications (callbacks
       [(scenario_env ''D1'' ''alice'' True, 10, ''c1'', ''s1''),
        (scenario_env ''D2'' ''bob'' True, 20, ''c2'', ''s2'')]
       (storePending 0 ''s2'' (- 5) ''0xBBB'' (started_db ''s1'' (- 5) ''0xAAA''))))))"
proof -
  let ?db = "storePending 0 ''s2'' (- 5) ''0xBBB'' (started_db ''s1'' (- 5) ''0xAAA'')"
  let ?reqs = "[(scenario_env ''D1'' ''alice'' True, 10, ''c1'', ''s1''),
        (scenario_env ''D2'' ''bob'' True, 20, ''c2'', ''s2'')]"
  have e: "verifications (callbacks ?reqs ?db)
   = [\<lparr>v_fid = - 5, v_wallet = ''0xaaa'', discord_id = ''D1'', discord_username = ''alice'',
        nft_balance = 2, verified_at = 10, last_checked = 10\<rparr>,
      \<lparr>v_fid = - 5, v_wallet = ''0xbbb'', discord_id = ''D2'', discord_username = ''bob'',
        nft_balance = 3, verified_at = 20, last_checked = 20\<rparr>]"
    by code_simp
  have "\<not> distinct (map v_fid (filter (\<lambda>r. v_fid r \<noteq> 0) (verifications (callbacks ?reqs ?db))))"
    unfolding e by simp
  with e show ?thesis by (rule conjI)
qed

section \<open>Reconciliation loop: properties\<close>

lemma reverify_zero:
  assumes "sum_balances (balanceOf env)
      (allWallets (v_wallet v) (getFarcasterWallets (neynar_bulk env (v_fid v)))) 0 = 0"
  shows "reverify env now v (db, removed)
     = (deleteVerification (discord_id v) db, removed @ [discord_id v])"
  using assms by (simp add: reverify_def)

lemma reverify_positive:
  assumes "sum_balances (balanceOf env)
      (allWallets (v_wallet v) (getFarcasterWallets (neynar_bulk env (v_fid v)))) 0 = tb"
    and "tb \<noteq> 0"
  shows "reverify env now v (db, removed)
     = (updateNftBalance now (discord_id v) tb db, removed)"
  using assms by (simp add: reverify_def)

lemma updated_rows_columns:
  fixes rows :: "DiscordVerification list" and d :: string and b now :: int
  defines "g \<equiv> \<lambda>r. if discord_id r = d then r\<lparr>nft_balance := b, last_checked := now\<rparr> else r"
  shows "map v_fid (map g rows) = map v_fid rows"
    and "map v_wallet (map g rows) = map v_wallet rows"
    and "map discord_id (map g rows) = map discord_id rows"
    and "map discord_username (map g rows) = map discord_username rows"
    and "map verified_at (map g rows) = map verified_at rows"
    and "filter (\<lambda>r. discord_id r \<noteq> d) (map g rows) = filter (\<lambda>r. discord_id r \<noteq> d) rows"
    and "filter (\<lambda>r. discord_id r = d) (map g rows)
           = map (\<lambda>r. r\<lparr>nft_balance := b, last_checked := now\<rparr>) (filter (\<lambda>r. discord_id r = d) rows)"
  unfolding g_def by (induction rows) simp_all

lemma updateNftBalance_columns:
  "map v_fid (verifications (updateNftBalance now d b db)) = map v_fid (verifications db)"
  "map v_wallet (verifications (updateNftBalance now d b db)) = map v_wallet (verifications db)"
  "map discord_id (verifications (updateNftBalance now d b db)) = map discord_id (verifications db)"
  "map discord_username (verifications (updateNftBalance now d b db))
     = map discord_username (verifications db)"
  "map verified_at (verifications (updateNftBalance now d b db)) = map verified_at (verifications db)"
  "filter (\<lambda>r. discord_id r \<noteq> d) (verifications (updateNftBalance now d b db))
     = filter (\<lambda>r. discord_id r \<noteq> d) (verifications db)"
  "filter (\<lambda>r. discord_id r = d) (verifications (updateNftBalance now d b db))
     = map (\<lambda>r. r\<lparr>nft_balance := b, last_checked := now\<rparr>)
         (filter (\<lambda>r. discord_id r = d) (verifications db))"
  "pendings (updateNftBalance now d b db) = pendings db"
  using updated_rows_columns [where d = d and b = b and now = now and rows = "verifications db"]
  by (simp_all add: updateNftBalance_def)

lemma deleteVerification_others:
  "filter (\<lambda>r. discord_id r \<noteq> d) (verifications (deleteVerification d db))
     = filter (\<lambda>r. discord_id r \<noteq> d) (verifications db)"
  by (simp add: deleteVerification_def)

lemma deleteVerification_own:
  "d \<notin> discord_id ` set (verifications (deleteVerification d db))"
  by (auto simp: deleteVerification_def)

text \<open>
  Claim C5. One iteration of the re-verification loop, for the stale Binding \<open>v\<close>, with
  \<open>tb\<close> the sum of the balances of its candidate wallets: the PendingSessions and the
  records of every other account are untouched. If \<open>tb\<close> is 0, \<open>removeHolderRole\<close> is
  called for the account and no record of the account is left. Otherwise no role is
  removed and the records of the account get the balance \<open>tb\<close> and the current time as
  \<open>last_checked\<close>, and nothing else changes: the columns wallet, social id, Discord id,
  user name and \<open>verified_at\<close> of the table are what they were.
\<close>

theorem reverify_effect:
  "tb = sum_list (map (getProtardioBalance (balanceOf env))
          (allWallets (v_wallet v) (getFarcasterWallets (neynar_bulk env (v_fid v)))))
   \<and> reverify env now v (db, removed) = (db', removed') \<longrightarrow>
     pendings db' = pendings db
   \<and> filter (\<lambda>r. discord_id r \<noteq> discord_id v) (verifications db')
       = filter (\<lambda>r. discord_id r \<noteq> discord_id v) (verifications db)
   \<and> (tb = 0 \<longrightarrow>
         removed' = removed @ [discord_id v]
         \<and> filter (\<lambda>r. discord_id r = discord_id v) (verifications db') = [])
   \<and> (tb \<noteq> 0 \<longrightarrow>
         removed' = removed
         \<and> filter (\<lambda>r. discord_id r = discord_id v) (verifications db')
             = map (\<lambda>r. r\<lparr>nft_balance := tb, last_checked := now\<rparr>)
                 (filter (\<lambda>r. discord_id r = discord_id v) (verifications db))
         \<and> map v_wallet (verifications db') = map v_wallet (verifications db)
         \<and> map v_fid (verifications db') = map v_fid (verifications db)
         \<and> map discord_id (verifications db') = map discord_id (verifications db)
         \<and> map discord_username (verifications db') = map discord_username (verifications db)
         \<and> map verified_at (verifications db') = map verified_at (verifications db))"
proof (intro impI)
  assume a: "tb = sum_list (map (getProtardioBalance (balanceOf env))
          (allWallets (v_wallet v) (getFarcasterWallets (neynar_bulk env (v_fid v)))))
   \<and> reverify env now v (db, removed) = (db', removed')"
  then have tb: "sum_balances (balanceOf env)
      (allWallets (v_wallet v) (getFarcasterWallets (neynar_bulk env (v_fid v)))) 0 = tb"
    and r: "reverify env now v (db, removed) = (db', removed')"
    by (simp_all add: sum_balances_total)
  show "pendings db' = pendings db
   \<and> filter (\<lambda>r. discord_id r \<noteq> discord_id v) (verifications db')
       = filter (\<lambda>r. discord_id r \<noteq> discord_id v) (verifications db)
   \<and> (tb = 0 \<longrightarrow>
         removed' = removed @ [discord_id v]
         \<and> filter (\<lambda>r. discord_id r = discord_id v) (verifications db') = [])
   \<and> (tb \<noteq> 0 \<longrightarrow>
         removed' = removed
         \<and> filter (\<lambda>r. discord_id r = discord_id v) (verifications db')
             = map (\<lambda>r. r\<lparr>nft_balance := tb, last_checked := now\<rparr>)
                 (filter (\<lambda>r. discord_id r = discord_id v) (verifications db))
         \<and> map v_wallet (verifications db') = map v_wallet (verifications db)
         \<and> map v_fid (verifications db') = map v_fid (verifications db)
         \<and> map discord_id (verifications db') = map discord_id (verifications db)
         \<and> map discord_username (verifications db') = map discord_username (verifications db)
         \<and> map verified_at (verifications db') = map verified_at (verifications db))"
  proof (cases "tb = 0")
    case True
    then have "reverify env now v (db, removed)
       = (deleteVerification (discord_id v) db, removed @ [discord_id v])"
      using tb by (simp add: reverify_zero)
    then have "db' = deleteVerification (discord_id v) db" "removed' = removed @ [discord_id v]"
      using r by simp_all
    then show ?thesis using True by (simp add: deleteVerification_def)
  next
    case False
    then have "reverify env now v (db, removed)
       = (updateNftBalance now (discord_id v) tb db, removed)"
      using tb by (simp add: reverify_positive)
    then have "db' = updateNftBalance now (discord_id v) tb db" "removed' = removed"
      using r by simp_all
    then show ?thesis using False by (simp add: updateNftBalance_columns)
  qed
qed

theorem reverify_effect_witness:
  "snd (reverify (scenario_env ''D9'' ''x'' True) 99
       \<lparr>v_fid = 0, v_wallet = ''0xccc'', discord_id = ''D1'', discord_username = ''alice'',
          nft_balance = 1, verified_at = 5, last_checked = 5\<rparr> (holders_db, [])) = [''D1'']
 \<and> filter (\<lambda>r. discord_id r = ''D1'')
      (verifications (fst (reverify (scenario_env ''D9'' ''x'' True) 99
       \<lparr>v_fid = 0, v_wallet = ''0xccc'', discord_id = ''D1'', discord_username = ''alice'',
          nft_balance = 1, verified_at = 5, last_checked = 5\<rparr> (holders_db, [])))) = []
 \<and> map v_wallet (verifications (fst (reverify (scenario_env ''D9'' ''x'' True) 99
       \<lparr>v_fid = 0, v_wallet = ''0xaaa'', discord_id = ''D2'', discord_username = ''bob'',
          nft_balance = 1, verified_at = 6, last_checked = 6\<rparr> (holders_db, []))))
     = map v_wallet (verifications holders_db)"
proof -
  let ?env = "scenario_env ''D9'' ''x'' True"
  let ?v1 = "\<lparr>v_fid = 0, v_wallet = ''0xccc'', discord_id = ''D1'', discord_username = ''alice'',
          nft_balance = 1, verified_at = 5, last_checked = 5\<rparr>"
  let ?v2 = "\<lparr>v_fid = 0, v_wallet = ''0xaaa'', discord_id = ''D2'', discord_username = ''bob'',
          nft_balance = 1, verified_at = 6, last_checked = 6\<rparr>"
  let ?r1 = "reverify ?env 99 ?v1 (holders_db, [])"
  let ?r2 = "reverify ?env 99 ?v2 (holders_db, [])"
  have t1: "(0::int) = sum_list (map (getProtardioBalance (balanceOf ?env))
          (allWallets (v_wallet ?v1) (getFarcasterWallets (neynar_bulk ?env (v_fid ?v1)))))"
    by code_simp
  have t2: "(2::int) = sum_list (map (getProtardioBalance (balanceOf ?env))
          (allWallets (v_wallet ?v2) (getFarcasterWallets (neynar_bulk ?env (v_fid ?v2)))))"
    by code_simp
  have p1: "?r1 = (fst ?r1, snd ?r1)" and p2: "?r2 = (fst ?r2, snd ?r2)" by simp_all
  have a: "snd ?r1 = [] @ [discord_id ?v1]
      \<and> filter (\<lambda>r. discord_id r = discord_id ?v1) (verifications (fst ?r1)) = []"
    using reverify_effect [of 0 ?env ?v1 99 holders_db "[]" "fst ?r1" "snd ?r1"] t1 p1 by blast
  have b: "map v_wallet (verifications (fst ?r2)) = map v_wallet (verifications holders_db)"
    using reverify_effect [of 2 ?env ?v2 99 holders_db "[]" "fst ?r2" "snd ?r2"] t2 p2 by simp
  show ?thesis using a b by simp
qed

text \<open>The whole run: what the loop leaves of each account's records.\<close>

lemma reverify_own:
  "filter (\<lambda>r. discord_id r = discord_id v) (verifications (fst (reverify env now v s)))
     = (if sum_balances (balanceOf env)
             (allWallets (v_wallet v) (getFarcasterWallets (neynar_bulk env (v_fid v)))) 0 = 0
        then []
        else map (\<lambda>r. r\<lparr>nft_balance := sum_balances (balanceOf env)
                    (allWallets (v_wallet v) (getFarcasterWallets (neynar_bulk env (v_fid v)))) 0,
                  last_checked := now\<rparr>)
               (filter (\<lambda>r. discord_id r = discord_id v) (verifications (fst s))))"
  by (simp add: reverify_def Let_def updateNftBalance_columns deleteVerification_def)

lemma filter_other_id:
  assumes "d \<noteq> e"
    and "filter (\<lambda>r. discord_id r \<noteq> e) rows' = filter (\<lambda>r. discord_id r \<noteq> e) rows"
  shows "filter (\<lambda>r. discord_id r = d) rows' = filter (\<lambda>r. discord_id r = (d :: string)) rows"
proof -
  have "filter (\<lambda>r. discord_id r = d) xs
      = filter (\<lambda>r. discord_id r = d) (filter (\<lambda>r. discord_id r \<noteq> e) xs)" for xs
    using assms(1) by (induction xs) auto
  then show ?thesis using assms(2) by metis
qed

lemma reverify_other_account:
  assumes "d \<noteq> discord_id v"
  shows "filter (\<lambda>r. discord_id r = d) (verifications (fst (reverify env now v s)))
     = filter (\<lambda>r. discord_id r = d) (verifications (fst s))"
proof (rule filter_other_id [OF assms])
  show "filter (\<lambda>r. discord_id r \<noteq> discord_id v) (verifications (fst (reverify env now v s)))
      = filter (\<lambda>r. discord_id r \<noteq> discord_id v) (verifications (fst s))"
    by (simp add: reverify_def Let_def updateNftBalance_columns deleteVerification_def)
qed

lemma reverify_each_other_accounts:
  "d \<notin> discord_id ` set vs \<Longrightarrow>
   filter (\<lambda>r. discord_id r = d) (verifications (fst (reverify_each env clock i vs s)))
     = filter (\<lambda>r. discord_id r = d) (verifications (fst s))"
proof (induction vs arbitrary: i s)
  case Nil
  show ?case by simp
next
  case (Cons v vs)
  then have "d \<noteq> discord_id v" and "d \<notin> discord_id ` set vs" by auto
  then show ?case using Cons.IH by (simp add: reverify_other_account)
qed

lemma reverify_each_own:
  assumes "distinct (map discord_id vs)" "k < length vs"
  shows "filter (\<lambda>r. discord_id r = discord_id (vs ! k))
            (verifications (fst (reverify_each env clock i vs s)))
     = filter (\<lambda>r. discord_id r = discord_id (vs ! k))
            (verifications (fst (reverify env (clock (i + k)) (vs ! k) s)))"
  using assms
proof (induction vs arbitrary: i s k)
  case Nil
  then show ?case by simp
next
  case (Cons v vs)
  show ?case
  proof (cases k)
    case 0
    have "discord_id v \<notin> discord_id ` set vs" using Cons.prems(1) by simp
    then show ?thesis using 0 by (simp add: reverify_each_other_accounts)
  next
    case (Suc j)
    then have j: "j < length vs" and d: "distinct (map discord_id vs)"
      using Cons.prems by simp_all
    have "vs ! j \<in> set vs" using j by simp
    then have "discord_id (vs ! j) \<in> discord_id ` set vs" by (rule imageI)
    then have ne: "discord_id (vs ! j) \<noteq> discord_id v" using Cons.prems(1) by auto
    have "filter (\<lambda>r. discord_id r = discord_id (vs ! j))
            (verifications (fst (reverify_each env clock (Suc i) vs (reverify env (clock i) v s))))
       = filter (\<lambda>r. discord_id r = discord_id (vs ! j))
            (verifications (fst (reverify env (clock (Suc i + j)) (vs ! j) (reverify env (clock i) v s))))"
      using d j by (rule Cons.IH)
    also have "\<dots> = filter (\<lambda>r. discord_id r = discord_id (vs ! j))
            (verifications (fst (reverify env (clock (Suc i + j)) (vs ! j) s)))"
      unfolding reverify_own using reverify_other_account [OF ne] by simp
    finally show ?thesis using Suc by simp
  qed
qed

lemma reverify_each_removed:
  "snd (reverify_each env clock i vs s)
     = snd s @ map discord_id
         (filter (\<lambda>v. sum_balances (balanceOf env)
             (allWallets (v_wallet v) (getFarcasterWallets (neynar_bulk env (v_fid v)))) 0 = 0) vs)"
  by (induction vs arbitrary: i s) (simp_all add: reverify_def Let_def)

text \<open>
  The scenario of the two holders, one day and a bit after their last check: the run
  removes the role of \<open>D1\<close> once, deletes its Binding, and refreshes the Binding of \<open>D2\<close>.
\<close>

lemma reverification_scenario:
  "reverification (scenario_env ''D9'' ''x'' True) 86400100 (\<lambda>i. 86400100 + int i) holders_db
     = (\<lparr>verifications =
           [\<lparr>v_fid = 0, v_wallet = ''0xaaa'', discord_id = ''D2'', discord_username = ''bob'',
             nft_balance = 2, verified_at = 6, last_checked = 86400101\<rparr>],
         pendings = []\<rparr>, [''D1''])"
  by code_simp

end
